theory Spec2Isabelle
  imports Main "HOL-Library.Word"
begin

section \<open>JavaScript strings and \<open>encodeURIComponent\<close>\<close>

text \<open>
  A JavaScript string is a sequence of 16-bit UTF-16 code units. A source literal is
  ASCII, so it is written as an Isabelle string and widened by \<open>js\<close>.
\<close>

type_synonym code_unit = "16 word"
type_synonym js_string = "code_unit list"

definition js :: "string \<Rightarrow> js_string" where
  "js s = map (\<lambda>c. of_nat (of_char c)) s"

datatype js_error = URIError

text \<open>
  \<open>encodeURIComponent\<close> is the built-in that \<open>createUserAvatarUrl\<close> calls. It is
  modelled after the abstract operation Encode of ECMA-262 with the unescaped set
  \<open>A-Z a-z 0-9 - _ . ! ~ * ' ( )\<close>: an unescaped code unit is copied, every other code
  point is written as the \<open>%XX\<close> escapes of its UTF-8 octets, and a surrogate that has no
  partner makes the call throw URIError.
\<close>

definition uriUnescaped :: "code_unit \<Rightarrow> bool" where
  "uriUnescaped c =
     (let n = unat c in
        (65 \<le> n \<and> n \<le> 90) \<or> (97 \<le> n \<and> n \<le> 122) \<or> (48 \<le> n \<and> n \<le> 57) \<or>
        n = 45 \<or> n = 95 \<or> n = 46 \<or> n = 33 \<or> n = 126 \<or> n = 42 \<or> n = 39 \<or> n = 40 \<or> n = 41)"

definition isLeadingSurrogate :: "code_unit \<Rightarrow> bool" where
  "isLeadingSurrogate c = (55296 \<le> unat c \<and> unat c \<le> 56319)"

definition isTrailingSurrogate :: "code_unit \<Rightarrow> bool" where
  "isTrailingSurrogate c = (56320 \<le> unat c \<and> unat c \<le> 57343)"

definition UTF16SurrogatePairToCodePoint :: "code_unit \<Rightarrow> code_unit \<Rightarrow> nat" where
  "UTF16SurrogatePairToCodePoint lead trail =
     (unat lead - 55296) * 1024 + (unat trail - 56320) + 65536"

definition utf8_octets :: "nat \<Rightarrow> nat list" where
  "utf8_octets cp =
     (if cp < 128 then [cp]
      else if cp < 2048 then [192 + cp div 64, 128 + cp mod 64]
      else if cp < 65536 then [224 + cp div 4096, 128 + (cp div 64) mod 64, 128 + cp mod 64]
      else [240 + cp div 262144, 128 + (cp div 4096) mod 64, 128 + (cp div 64) mod 64,
            128 + cp mod 64])"

definition hex_digit :: "nat \<Rightarrow> code_unit" where
  "hex_digit n = (if n < 10 then of_nat (48 + n) else of_nat (55 + n))"

definition percent_octet :: "nat \<Rightarrow> js_string" where
  "percent_octet b = [37, hex_digit (b div 16), hex_digit (b mod 16)]"

definition percent_encode :: "nat \<Rightarrow> js_string" where
  "percent_encode cp = concat (map percent_octet (utf8_octets cp))"

fun Encode :: "js_string \<Rightarrow> js_error + js_string" where
  "Encode [] = Inr []"
| "Encode [c] =
     (if uriUnescaped c then Inr [c]
      else if isLeadingSurrogate c \<or> isTrailingSurrogate c then Inl URIError
      else Inr (percent_encode (unat c)))"
| "Encode (c # d # ds) =
     (if uriUnescaped c then map_sum id ((#) c) (Encode (d # ds))
      else if \<not> isLeadingSurrogate c \<and> \<not> isTrailingSurrogate c
        then map_sum id ((@) (percent_encode (unat c))) (Encode (d # ds))
      else if isTrailingSurrogate c then Inl URIError
      else if \<not> isTrailingSurrogate d then Inl URIError
      else map_sum id ((@) (percent_encode (UTF16SurrogatePairToCodePoint c d))) (Encode ds))"

definition encodeURIComponent :: "js_string \<Rightarrow> js_error + js_string" where
  "encodeURIComponent uriComponent = Encode uriComponent"

text \<open>
  \<open>packages/server/src/utils/createImagesUrl.js\<close>: the template literal concatenates
  the two literal parts around the encoded email; an exception of the built-in leaves
  the function as it is.
\<close>

definition createUserAvatarUrl :: "js_string \<Rightarrow> js_error + js_string" where
  "createUserAvatarUrl email =
     (case encodeURIComponent email of
        Inl e \<Rightarrow> Inl e
      | Inr seed \<Rightarrow>
          Inr (js ''https://api.dicebear.com/7.x/avataaars/svg?seed='' @ seed @ js ''&scale=80''))"

text \<open>
  A string is well formed when every surrogate is half of a pair, a leading one followed
  at once by a trailing one.
\<close>

fun well_formed :: "js_string \<Rightarrow> bool" where
  "well_formed [] = True"
| "well_formed [c] = (\<not> isLeadingSurrogate c \<and> \<not> isTrailingSurrogate c)"
| "well_formed (c # d # ds) =
     (if isLeadingSurrogate c then isTrailingSurrogate d \<and> well_formed ds
      else \<not> isTrailingSurrogate c \<and> well_formed (d # ds))"

text \<open>The code units an encoded component is made of: unescaped ones, \<open>%\<close> and hex digits.\<close>

definition uri_safe :: "code_unit \<Rightarrow> bool" where
  "uri_safe c = (uriUnescaped c \<or> c = 37)"


section \<open>The relational schema\<close>

text \<open>
  The five tables of the \<open>CREATE TABLE\<close> statements. A UUID is an opaque key and a
  timestamp a point on the clock; both are natural numbers here. Every insert of the
  repository leaves \<open>id\<close>, \<open>created_at\<close> and \<open>updated_at\<close> to their column defaults,
  so these columns are never NULL in a stored row. The nullable text columns of
  \<open>users\<close> are options.
\<close>

type_synonym uuid = nat
type_synonym timestamp = nat

record users_row =
  u_id :: uuid
  u_email :: js_string
  u_password_hash :: js_string
  u_name :: js_string
  u_avatar_url :: "js_string option"
  u_bio :: "js_string option"
  u_website :: "js_string option"
  u_created_at :: timestamp
  u_updated_at :: timestamp

record tweets_row =
  t_id :: uuid
  t_user_id :: uuid
  t_content :: js_string
  t_created_at :: timestamp
  t_updated_at :: timestamp

record follows_row =
  f_id :: uuid
  f_follower_id :: uuid
  f_following_id :: uuid
  f_created_at :: timestamp

record likes_row =
  l_id :: uuid
  l_user_id :: uuid
  l_tweet_id :: uuid
  l_created_at :: timestamp

record retweets_row =
  r_id :: uuid
  r_user_id :: uuid
  r_tweet_id :: uuid
  r_created_at :: timestamp

record db =
  users :: "users_row list"
  tweets :: "tweets_row list"
  follows :: "follows_row list"
  likes :: "likes_row list"
  retweets :: "retweets_row list"

definition empty_db :: db where
  "empty_db = \<lparr>users = [], tweets = [], follows = [], likes = [], retweets = []\<rparr>"

subsection \<open>Constraints\<close>

text \<open>\<open>PRIMARY KEY\<close> of each table.\<close>

definition pk_ok :: "db \<Rightarrow> bool" where
  "pk_ok d =
     (distinct (map u_id (users d)) \<and> distinct (map t_id (tweets d)) \<and>
      distinct (map f_id (follows d)) \<and> distinct (map l_id (likes d)) \<and>
      distinct (map r_id (retweets d)))"

text \<open>\<open>email UNIQUE\<close>, and the composite \<open>UNIQUE\<close> of each junction table.\<close>

definition email_unique :: "db \<Rightarrow> bool" where
  "email_unique d = distinct (map u_email (users d))"

definition follows_unique :: "db \<Rightarrow> bool" where
  "follows_unique d = distinct (map (\<lambda>f. (f_follower_id f, f_following_id f)) (follows d))"

definition likes_unique :: "db \<Rightarrow> bool" where
  "likes_unique d = distinct (map (\<lambda>l. (l_user_id l, l_tweet_id l)) (likes d))"

definition retweets_unique :: "db \<Rightarrow> bool" where
  "retweets_unique d = distinct (map (\<lambda>r. (r_user_id r, r_tweet_id r)) (retweets d))"

text \<open>\<open>REFERENCES users(id)\<close> and \<open>REFERENCES tweets(id)\<close>.\<close>

definition user_exists :: "db \<Rightarrow> uuid \<Rightarrow> bool" where
  "user_exists d i = (i \<in> set (map u_id (users d)))"

definition tweet_exists :: "db \<Rightarrow> uuid \<Rightarrow> bool" where
  "tweet_exists d i = (i \<in> set (map t_id (tweets d)))"

definition fk_ok :: "db \<Rightarrow> bool" where
  "fk_ok d =
     (list_all (\<lambda>t. user_exists d (t_user_id t)) (tweets d) \<and>
      list_all (\<lambda>f. user_exists d (f_follower_id f) \<and> user_exists d (f_following_id f))
        (follows d) \<and>
      list_all (\<lambda>l. user_exists d (l_user_id l) \<and> tweet_exists d (l_tweet_id l)) (likes d) \<and>
      list_all (\<lambda>r. user_exists d (r_user_id r) \<and> tweet_exists d (r_tweet_id r))
        (retweets d))"

definition schema_ok :: "db \<Rightarrow> bool" where
  "schema_ok d =
     (pk_ok d \<and> email_unique d \<and> follows_unique d \<and> likes_unique d \<and> retweets_unique d \<and>
      fk_ok d)"

subsection \<open>Statements\<close>

text \<open>
  The statements the API issues against the schema. A column value of a statement may be
  NULL (\<open>None\<close>); the \<open>NOT NULL\<close> columns reject it. \<open>DEFAULT gen_random_uuid()\<close> is a
  key that the table does not hold yet, \<open>DEFAULT CURRENT_TIMESTAMP\<close> the clock that the
  execution is given.
\<close>

datatype statement =
    INSERT_users "js_string option" "js_string option" "js_string option" "js_string option"
  | INSERT_tweets "uuid option" "js_string option"
  | INSERT_follows "uuid option" "uuid option"
  | INSERT_likes "uuid option" "uuid option"
  | INSERT_retweets "uuid option" "uuid option"
  | UPDATE_tweets uuid "js_string option"
  | UPDATE_users uuid "js_string option" "js_string option" "js_string option" "js_string option"
  | DELETE_users uuid
  | DELETE_tweets uuid
  | DELETE_follows uuid uuid
  | DELETE_likes uuid uuid
  | DELETE_retweets uuid uuid

datatype db_error = not_null_violation | unique_violation | foreign_key_violation

definition gen_random_uuid :: "uuid list \<Rightarrow> uuid" where
  "gen_random_uuid ids = Suc (foldr max ids 0)"

text \<open>
  A failing statement changes nothing. An insert checks \<open>NOT NULL\<close> when the row is
  formed, then the unique indexes, then the foreign keys. \<open>ON DELETE CASCADE\<close>: deleting
  a tweet deletes the likes and retweets that reference it; deleting a user deletes the
  user's tweets, follows (either end), likes and retweets, and what references those
  tweets.
\<close>

fun exec :: "timestamp \<Rightarrow> db \<Rightarrow> statement \<Rightarrow> db_error + db" where
  "exec now d (INSERT_users email password_hash name avatar_url) =
     (case (email, password_hash, name) of
        (Some e, Some p, Some n) \<Rightarrow>
          if e \<in> set (map u_email (users d)) then Inl unique_violation
          else Inr (d\<lparr>users := users d @
                 [\<lparr>u_id = gen_random_uuid (map u_id (users d)), u_email = e, u_password_hash = p,
                   u_name = n, u_avatar_url = avatar_url, u_bio = None, u_website = None,
                   u_created_at = now, u_updated_at = now\<rparr>]\<rparr>)
      | _ \<Rightarrow> Inl not_null_violation)"
| "exec now d (INSERT_tweets user_id content) =
     (case (user_id, content) of
        (Some u, Some c) \<Rightarrow>
          if \<not> user_exists d u then Inl foreign_key_violation
          else Inr (d\<lparr>tweets := tweets d @
                 [\<lparr>t_id = gen_random_uuid (map t_id (tweets d)), t_user_id = u, t_content = c,
                   t_created_at = now, t_updated_at = now\<rparr>]\<rparr>)
      | _ \<Rightarrow> Inl not_null_violation)"
| "exec now d (INSERT_follows follower_id following_id) =
     (case (follower_id, following_id) of
        (Some a, Some b) \<Rightarrow>
          if (a, b) \<in> set (map (\<lambda>f. (f_follower_id f, f_following_id f)) (follows d))
            then Inl unique_violation
          else if \<not> user_exists d a \<or> \<not> user_exists d b then Inl foreign_key_violation
          else Inr (d\<lparr>follows := follows d @
                 [\<lparr>f_id = gen_random_uuid (map f_id (follows d)), f_follower_id = a,
                   f_following_id = b, f_created_at = now\<rparr>]\<rparr>)
      | _ \<Rightarrow> Inl not_null_violation)"
| "exec now d (INSERT_likes user_id tweet_id) =
     (case (user_id, tweet_id) of
        (Some u, Some t) \<Rightarrow>
          if (u, t) \<in> set (map (\<lambda>l. (l_user_id l, l_tweet_id l)) (likes d))
            then Inl unique_violation
          else if \<not> user_exists d u \<or> \<not> tweet_exists d t then Inl foreign_key_violation
          else Inr (d\<lparr>likes := likes d @
                 [\<lparr>l_id = gen_random_uuid (map l_id (likes d)), l_user_id = u, l_tweet_id = t,
                   l_created_at = now\<rparr>]\<rparr>)
      | _ \<Rightarrow> Inl not_null_violation)"
| "exec now d (INSERT_retweets user_id tweet_id) =
     (case (user_id, tweet_id) of
        (Some u, Some t) \<Rightarrow>
          if (u, t) \<in> set (map (\<lambda>r. (r_user_id r, r_tweet_id r)) (retweets d))
            then Inl unique_violation
          else if \<not> user_exists d u \<or> \<not> tweet_exists d t then Inl foreign_key_violation
          else Inr (d\<lparr>retweets := retweets d @
                 [\<lparr>r_id = gen_random_uuid (map r_id (retweets d)), r_user_id = u,
                   r_tweet_id = t, r_created_at = now\<rparr>]\<rparr>)
      | _ \<Rightarrow> Inl not_null_violation)"
| "exec now d (UPDATE_tweets i content) =
     (case content of
        None \<Rightarrow> Inl not_null_violation
      | Some c \<Rightarrow>
          Inr (d\<lparr>tweets := map (\<lambda>t. if t_id t = i
                 then t\<lparr>t_content := c, t_updated_at := now\<rparr> else t) (tweets d)\<rparr>))"
| "exec now d (UPDATE_users i name bio website avatar_url) =
     (case name of
        None \<Rightarrow> Inl not_null_violation
      | Some n \<Rightarrow>
          Inr (d\<lparr>users := map (\<lambda>u. if u_id u = i
                 then u\<lparr>u_name := n, u_bio := bio, u_website := website,
                        u_avatar_url := avatar_url, u_updated_at := now\<rparr> else u) (users d)\<rparr>))"
| "exec now d (DELETE_users i) =
     (let dead = map t_id (filter (\<lambda>t. t_user_id t = i) (tweets d)) in
      Inr (d\<lparr>users := filter (\<lambda>u. u_id u \<noteq> i) (users d),
             tweets := filter (\<lambda>t. t_user_id t \<noteq> i) (tweets d),
             follows := filter (\<lambda>f. f_follower_id f \<noteq> i \<and> f_following_id f \<noteq> i) (follows d),
             likes := filter (\<lambda>l. l_user_id l \<noteq> i \<and> l_tweet_id l \<notin> set dead) (likes d),
             retweets := filter (\<lambda>r. r_user_id r \<noteq> i \<and> r_tweet_id r \<notin> set dead)
               (retweets d)\<rparr>))"
| "exec now d (DELETE_tweets i) =
     Inr (d\<lparr>tweets := filter (\<lambda>t. t_id t \<noteq> i) (tweets d),
            likes := filter (\<lambda>l. l_tweet_id l \<noteq> i) (likes d),
            retweets := filter (\<lambda>r. r_tweet_id r \<noteq> i) (retweets d)\<rparr>)"
| "exec now d (DELETE_follows a b) =
     Inr (d\<lparr>follows := filter (\<lambda>f. \<not> (f_follower_id f = a \<and> f_following_id f = b))
            (follows d)\<rparr>)"
| "exec now d (DELETE_likes u t) =
     Inr (d\<lparr>likes := filter (\<lambda>l. \<not> (l_user_id l = u \<and> l_tweet_id l = t)) (likes d)\<rparr>)"
| "exec now d (DELETE_retweets u t) =
     Inr (d\<lparr>retweets := filter (\<lambda>r. \<not> (r_user_id r = u \<and> r_tweet_id r = t)) (retweets d)\<rparr>)"

section \<open>Resolvers\<close>

text \<open>The error codes of the API's error responses.\<close>

datatype api_error =
  UNAUTHENTICATED | VALIDATION_ERROR | NOT_FOUND | DUPLICATE | FORBIDDEN | INTERNAL_SERVER_ERROR

subsection \<open>\<open>homeFeed\<close>\<close>

text \<open>
  The row that the query selects: \<open>t.*\<close>, \<open>u.name\<close>, \<open>u.avatar_url\<close> and the two counts.
\<close>

record feed_row = tweets_row +
  name :: js_string
  avatar_url :: "js_string option"
  likes_count :: nat
  retweets_count :: nat

type_synonym joined_row = "tweets_row \<times> users_row \<times> likes_row option \<times> retweets_row option"

text \<open>A \<open>LEFT JOIN\<close> keeps a row that has no partner, with NULL in the partner's columns.\<close>

definition left_join :: "'a list \<Rightarrow> 'a option list" where
  "left_join xs = (if xs = [] then [None] else map Some xs)"

text \<open>
  \<open>FROM tweets t JOIN users u ON t.user_id = u.id LEFT JOIN likes l ON t.id = l.tweet_id
  LEFT JOIN retweets r ON t.id = r.tweet_id\<close>
\<close>

definition homeFeed_from :: "db \<Rightarrow> joined_row list" where
  "homeFeed_from d =
     concat (map (\<lambda>t.
       concat (map (\<lambda>u.
         concat (map (\<lambda>l.
           map (\<lambda>r. (t, u, l, r))
             (left_join (filter (\<lambda>r. t_id t = r_tweet_id r) (retweets d))))
           (left_join (filter (\<lambda>l. t_id t = l_tweet_id l) (likes d)))))
         (filter (\<lambda>u. t_user_id t = u_id u) (users d))))
       (tweets d))"

text \<open>
  \<open>WHERE t.user_id = ? OR t.user_id IN (SELECT following_id FROM follows WHERE
  follower_id = ?)\<close>, both parameters bound to \<open>req.user.id\<close>.
\<close>

definition following_ids :: "db \<Rightarrow> uuid \<Rightarrow> uuid list" where
  "following_ids d uid = map f_following_id (filter (\<lambda>f. f_follower_id f = uid) (follows d))"

definition in_feed :: "db \<Rightarrow> uuid \<Rightarrow> tweets_row \<Rightarrow> bool" where
  "in_feed d uid t = (t_user_id t = uid \<or> t_user_id t \<in> set (following_ids d uid))"

definition homeFeed_where :: "db \<Rightarrow> uuid \<Rightarrow> joined_row \<Rightarrow> bool" where
  "homeFeed_where d uid j = (case j of (t, u, l, r) \<Rightarrow> in_feed d uid t)"

text \<open>\<open>GROUP BY t.id, u.id\<close>: one group for each key, holding the rows that have it.\<close>

definition group_key :: "joined_row \<Rightarrow> uuid \<times> uuid" where
  "group_key j = (case j of (t, u, l, r) \<Rightarrow> (t_id t, u_id u))"

definition group_by :: "('a \<Rightarrow> 'k) \<Rightarrow> 'a list \<Rightarrow> 'a list list" where
  "group_by key xs = map (\<lambda>k. filter (\<lambda>x. key x = k) xs) (remdups (map key xs))"

text \<open>\<open>COUNT(DISTINCT e)\<close> counts the different values of \<open>e\<close> that are not NULL.\<close>

definition count_distinct :: "'a option list \<Rightarrow> nat" where
  "count_distinct vs =
     length (remdups (concat (map (\<lambda>v. case v of None \<Rightarrow> [] | Some x \<Rightarrow> [x]) vs)))"

text \<open>
  The select list, evaluated on one group. The columns of \<open>t\<close> and \<open>u\<close> are the same in
  every row of a group, so they are read from its first row.
\<close>

definition homeFeed_select :: "joined_row list \<Rightarrow> feed_row list" where
  "homeFeed_select g =
     (case g of
        [] \<Rightarrow> []
      | (t, u, l, r) # _ \<Rightarrow>
          [\<lparr>t_id = t_id t, t_user_id = t_user_id t, t_content = t_content t,
            t_created_at = t_created_at t, t_updated_at = t_updated_at t,
            name = u_name u, avatar_url = u_avatar_url u,
            likes_count = count_distinct (map (\<lambda>(t, u, l, r). map_option l_id l) g),
            retweets_count = count_distinct (map (\<lambda>(t, u, l, r). map_option r_id r) g)\<rparr>])"

text \<open>The rows that the query selects, one for each group, not yet ordered.\<close>

definition homeFeed_grouped :: "db \<Rightarrow> uuid \<Rightarrow> feed_row list" where
  "homeFeed_grouped d uid =
     concat (map homeFeed_select
       (group_by group_key (filter (homeFeed_where d uid) (homeFeed_from d))))"

text \<open>
  \<open>ORDER BY t.created_at DESC\<close> has no second key. The order among rows of equal
  \<open>created_at\<close> is the choice of the database, and two executions of the same query can
  choose differently. An execution is given its choice as a rank \<open>tie\<close> of the rows: the
  rows come out by descending \<open>created_at\<close>, and those of equal \<open>created_at\<close> by ascending
  rank. Every rank gives an order that SQL allows, and every order that SQL allows of
  rows that differ is the order of some rank.
\<close>

definition order_by_created_at_desc :: "(feed_row \<Rightarrow> nat) \<Rightarrow> feed_row list \<Rightarrow> feed_row list"
  where
  "order_by_created_at_desc tie rows =
     sort_key (\<lambda>row. - int (t_created_at row)) (sort_key tie rows)"

text \<open>The query up to \<open>ORDER BY\<close>, before \<open>LIMIT\<close> and \<open>OFFSET\<close> cut a page out of it.\<close>

definition homeFeed_query :: "db \<Rightarrow> (feed_row \<Rightarrow> nat) \<Rightarrow> uuid \<Rightarrow> feed_row list" where
  "homeFeed_query d tie uid = order_by_created_at_desc tie (homeFeed_grouped d uid)"

text \<open>
  An argument of the GraphQL query reaches the resolver as \<open>undefined\<close> when the query
  leaves it out, as \<open>null\<close> when the query passes null, or as a value. A default of a
  destructuring pattern replaces \<open>undefined\<close> and nothing else; \<open>null\<close> is bound to the
  SQL parameter as NULL.
\<close>

datatype 'a arg = Undefined | Null | Val 'a

definition js_default :: "'a \<Rightarrow> 'a arg \<Rightarrow> 'a option" where
  "js_default v a = (case a of Undefined \<Rightarrow> Some v | Null \<Rightarrow> None | Val x \<Rightarrow> Some x)"

text \<open>
  \<open>LIMIT\<close> and \<open>OFFSET\<close>: NULL is no limit and no offset, and a negative number is an
  error of the database.
\<close>

definition sql_negative :: "int option \<Rightarrow> bool" where
  "sql_negative n = (case n of None \<Rightarrow> False | Some k \<Rightarrow> k < 0)"

definition sql_offset :: "int option \<Rightarrow> 'a list \<Rightarrow> 'a list" where
  "sql_offset n rows = (case n of None \<Rightarrow> rows | Some k \<Rightarrow> drop (nat k) rows)"

definition sql_limit :: "int option \<Rightarrow> 'a list \<Rightarrow> 'a list" where
  "sql_limit n rows = (case n of None \<Rightarrow> rows | Some k \<Rightarrow> take (nat k) rows)"

text \<open>
  The resolver. \<open>req.user\<close> is absent for a request without a session. The defaults of
  the two arguments are 20 and 0. The query that the database rejects is the resolver's
  error. The second parameter is the choice that the database makes in this execution
  among rows of equal \<open>created_at\<close>.
\<close>

definition homeFeed ::
  "db \<Rightarrow> (feed_row \<Rightarrow> nat) \<Rightarrow> uuid option \<Rightarrow> int arg \<Rightarrow> int arg \<Rightarrow> api_error + feed_row list"
  where
  "homeFeed d tie req_user limit offset =
     (case req_user of
        None \<Rightarrow> Inl UNAUTHENTICATED
      | Some uid \<Rightarrow>
          let l = js_default 20 limit;
              off = js_default 0 offset
          in if sql_negative l \<or> sql_negative off then Inl INTERNAL_SERVER_ERROR
             else Inr (sql_limit l (sql_offset off (homeFeed_query d tie uid))))"

text \<open>\<open>SELECT COUNT(*) FROM likes WHERE tweet_id = ?\<close>, and the same on \<open>retweets\<close>.\<close>

definition like_count :: "db \<Rightarrow> uuid \<Rightarrow> nat" where
  "like_count d tweet_id = length (filter (\<lambda>l. l_tweet_id l = tweet_id) (likes d))"

definition retweet_count :: "db \<Rightarrow> uuid \<Rightarrow> nat" where
  "retweet_count d tweet_id = length (filter (\<lambda>r. r_tweet_id r = tweet_id) (retweets d))"

subsection \<open>\<open>likeTweet\<close> and \<open>deleteTweet\<close>\<close>

record like_response =
  lr_id :: uuid
  lr_likes_count :: nat
  lr_is_liked_by_me :: bool

text \<open>
  Modelled from the spec: the \<open>likeTweet\<close> resolver, whose file is not among the sources.
  By the specification a resolver performs a single parameterized query, here an insert
  respecting the unique constraint of \<open>likes\<close>, and returns rows; the API answers a
  second like of the same tweet with the error \<open>DUPLICATE\<close> and a missing tweet with
  \<open>NOT_FOUND\<close>, and a request without a session with \<open>UNAUTHENTICATED\<close>. The answer to a
  like carries the tweet's id, its updated like count and \<open>is_liked_by_me\<close>. The
  integration tests like the author's own tweet, so no rule against that is part of the
  resolver.
\<close>

definition likeTweet :: "timestamp \<Rightarrow> db \<Rightarrow> uuid option \<Rightarrow> uuid \<Rightarrow> (api_error + like_response) \<times> db"
  where
  "likeTweet now d req_user tweetId =
     (case req_user of
        None \<Rightarrow> (Inl UNAUTHENTICATED, d)
      | Some uid \<Rightarrow>
          (case exec now d (INSERT_likes (Some uid) (Some tweetId)) of
             Inl unique_violation \<Rightarrow> (Inl DUPLICATE, d)
           | Inl foreign_key_violation \<Rightarrow> (Inl NOT_FOUND, d)
           | Inl not_null_violation \<Rightarrow> (Inl INTERNAL_SERVER_ERROR, d)
           | Inr d' \<Rightarrow>
               (Inr \<lparr>lr_id = tweetId, lr_likes_count = like_count d' tweetId,
                     lr_is_liked_by_me = True\<rparr>, d')))"

text \<open>
  Modelled from the spec: the \<open>deleteTweet\<close> resolver, whose file is not among the
  sources. Only the tweet's owner can delete it; the resolver then deletes the row of
  \<open>tweets\<close> and the schema's cascade removes what references it. The mutation answers
  with a boolean.
\<close>

definition deleteTweet :: "timestamp \<Rightarrow> db \<Rightarrow> uuid option \<Rightarrow> uuid \<Rightarrow> (api_error + bool) \<times> db"
  where
  "deleteTweet now d req_user i =
     (case req_user of
        None \<Rightarrow> (Inl UNAUTHENTICATED, d)
      | Some uid \<Rightarrow>
          (case find (\<lambda>t. t_id t = i) (tweets d) of
             None \<Rightarrow> (Inl NOT_FOUND, d)
           | Some t \<Rightarrow>
               if t_user_id t \<noteq> uid then (Inl FORBIDDEN, d)
               else (case exec now d (DELETE_tweets i) of
                       Inl e \<Rightarrow> (Inl INTERNAL_SERVER_ERROR, d)
                     | Inr d' \<Rightarrow> (Inr True, d'))))"

text \<open>The rule that the schema's notes leave to the application layer.\<close>

definition no_self_follows :: "db \<Rightarrow> bool" where
  "no_self_follows d = list_all (\<lambda>f. f_follower_id f \<noteq> f_following_id f) (follows d)"

text \<open>The edge of the follow graph from \<open>a\<close> to \<open>b\<close>, and a feed row's columns of \<open>t\<close>.\<close>

definition follows_edge :: "db \<Rightarrow> uuid \<Rightarrow> uuid \<Rightarrow> bool" where
  "follows_edge d a b = ((a, b) \<in> set (map (\<lambda>f. (f_follower_id f, f_following_id f)) (follows d)))"

definition feed_tweet :: "feed_row \<Rightarrow> tweets_row" where
  "feed_tweet row =
     \<lparr>t_id = t_id row, t_user_id = t_user_id row, t_content = t_content row,
      t_created_at = t_created_at row, t_updated_at = t_updated_at row\<rparr>"

section \<open>Example databases\<close>

text \<open>
  Two users; each has posted one tweet; user 1 follows user 2; both like the tweet of
  user 2, and user 1 has retweeted it.
\<close>

definition user1 :: users_row where
  "user1 = \<lparr>u_id = 1, u_email = [97], u_password_hash = [36], u_name = [65],
     u_avatar_url = None, u_bio = None, u_website = None, u_created_at = 1, u_updated_at = 1\<rparr>"

definition user2 :: users_row where
  "user2 = \<lparr>u_id = 2, u_email = [98], u_password_hash = [36], u_name = [66],
     u_avatar_url = None, u_bio = None, u_website = None, u_created_at = 2, u_updated_at = 2\<rparr>"

definition tweet1 :: tweets_row where
  "tweet1 = \<lparr>t_id = 1, t_user_id = 1, t_content = [104, 105], t_created_at = 10,
     t_updated_at = 10\<rparr>"

definition tweet2 :: tweets_row where
  "tweet2 = \<lparr>t_id = 2, t_user_id = 2, t_content = [104, 111], t_created_at = 20,
     t_updated_at = 20\<rparr>"

definition ex_db :: db where
  "ex_db =
     \<lparr>users = [user1, user2],
      tweets = [tweet1, tweet2],
      follows = [\<lparr>f_id = 1, f_follower_id = 1, f_following_id = 2, f_created_at = 15\<rparr>],
      likes = [\<lparr>l_id = 1, l_user_id = 1, l_tweet_id = 2, l_created_at = 21\<rparr>,
               \<lparr>l_id = 2, l_user_id = 2, l_tweet_id = 2, l_created_at = 22\<rparr>],
      retweets = [\<lparr>r_id = 1, r_user_id = 1, r_tweet_id = 2, r_created_at = 23\<rparr>]\<rparr>"

text \<open>The same after user 2 has liked the tweet of user 1 at time 30.\<close>

definition ex_db_liked :: db where
  "ex_db_liked =
     ex_db\<lparr>likes := likes ex_db @
       [\<lparr>l_id = 3, l_user_id = 2, l_tweet_id = 1, l_created_at = 30\<rparr>]\<rparr>"

text \<open>The same after user 2 has followed user 1 at time 30.\<close>

definition ex_db_followed :: db where
  "ex_db_followed =
     ex_db\<lparr>follows := follows ex_db @
       [\<lparr>f_id = 2, f_follower_id = 2, f_following_id = 1, f_created_at = 30\<rparr>]\<rparr>"

text \<open>The same after the tweet of user 2 has been deleted.\<close>

definition ex_db_deleted :: db where
  "ex_db_deleted = ex_db\<lparr>tweets := [tweet1], likes := [], retweets := []\<rparr>"

text \<open>The two rows of the feed of user 1, the newer first.\<close>

definition feed_row1 :: feed_row where
  "feed_row1 = \<lparr>t_id = 1, t_user_id = 1, t_content = [104, 105], t_created_at = 10,
     t_updated_at = 10, name = [65], avatar_url = None, likes_count = 0, retweets_count = 0\<rparr>"

definition feed_row2 :: feed_row where
  "feed_row2 = \<lparr>t_id = 2, t_user_id = 2, t_content = [104, 111], t_created_at = 20,
     t_updated_at = 20, name = [66], avatar_url = None, likes_count = 2, retweets_count = 1\<rparr>"

text \<open>One user who follows nobody, and the same with a follow row from the user to itself.\<close>

definition solo_db :: db where
  "solo_db = \<lparr>users = [user1], tweets = [], follows = [], likes = [], retweets = []\<rparr>"

definition solo_db_self_follow :: db where
  "solo_db_self_follow =
     solo_db\<lparr>follows := [\<lparr>f_id = 1, f_follower_id = 1, f_following_id = 1, f_created_at = 0\<rparr>]\<rparr>"

text \<open>One user with 21 tweets, tweet \<open>i\<close> posted at time \<open>i\<close>.\<close>

definition busy_tweet :: "nat \<Rightarrow> tweets_row" where
  "busy_tweet i = \<lparr>t_id = i, t_user_id = 1, t_content = [104, 105], t_created_at = i,
     t_updated_at = i\<rparr>"

definition busy_db :: db where
  "busy_db = \<lparr>users = [user1], tweets = map busy_tweet [1..<22], follows = [], likes = [],
     retweets = []\<rparr>"

definition busy_row :: "nat \<Rightarrow> feed_row" where
  "busy_row i = \<lparr>t_id = i, t_user_id = 1, t_content = [104, 105], t_created_at = i,
     t_updated_at = i, name = [65], avatar_url = None, likes_count = 0, retweets_count = 0\<rparr>"

text \<open>
  Three choices among rows of equal \<open>created_at\<close>: none, the lower id first, the higher
  id first.
\<close>

definition no_tie :: "feed_row \<Rightarrow> nat" where
  "no_tie row = 0"






section \<open>Properties of \<open>encodeURIComponent\<close>\<close>

lemma hex_digit_unescaped: "n < 16 \<Longrightarrow> uriUnescaped (hex_digit n)"
proof -
  assume "n < 16"
  then have "n \<in> set [0..<16]" by simp
  then show ?thesis
    by (simp add: upt_rec hex_digit_def uriUnescaped_def Let_def) (elim disjE; simp)
qed

lemma percent_octet_safe: "b < 256 \<Longrightarrow> c \<in> set (percent_octet b) \<Longrightarrow> uri_safe c"
proof -
  assume b: "b < 256" and c: "c \<in> set (percent_octet b)"
  have "b div 16 < 16" "b mod 16 < 16" using b by simp_all
  then have "uriUnescaped (hex_digit (b div 16))" "uriUnescaped (hex_digit (b mod 16))"
    by (simp_all add: hex_digit_unescaped)
  with c show ?thesis by (auto simp: percent_octet_def uri_safe_def)
qed

lemma utf8_octets_bound: "cp < 1114112 \<Longrightarrow> b \<in> set (utf8_octets cp) \<Longrightarrow> b < 256"
  by (auto simp: utf8_octets_def split: if_splits)

lemma percent_encode_safe: "cp < 1114112 \<Longrightarrow> c \<in> set (percent_encode cp) \<Longrightarrow> uri_safe c"
  by (auto simp: percent_encode_def dest: utf8_octets_bound percent_octet_safe)

lemma code_unit_bound: "unat (c :: code_unit) < 1114112"
proof -
  have "unat c < 2 ^ 16" using unsigned_less [of c] by simp
  then show ?thesis by simp
qed

lemma surrogate_pair_bound:
  "isLeadingSurrogate c \<Longrightarrow> isTrailingSurrogate d \<Longrightarrow> UTF16SurrogatePairToCodePoint c d < 1114112"
proof -
  assume c: "isLeadingSurrogate c" and d: "isTrailingSurrogate d"
  have "unat c - 55296 \<le> 1023" using c unfolding isLeadingSurrogate_def by linarith
  then have "(unat c - 55296) * 1024 \<le> 1023 * 1024" by (rule mult_le_mono1)
  moreover have "unat d - 56320 \<le> 1023" using d unfolding isTrailingSurrogate_def by linarith
  ultimately show ?thesis unfolding UTF16SurrogatePairToCodePoint_def by linarith
qed

lemma unescaped_not_surrogate:
  "uriUnescaped c \<Longrightarrow> \<not> isLeadingSurrogate c \<and> \<not> isTrailingSurrogate c"
  by (auto simp: uriUnescaped_def isLeadingSurrogate_def isTrailingSurrogate_def Let_def)

lemma leading_not_trailing: "isLeadingSurrogate c \<Longrightarrow> \<not> isTrailingSurrogate c"
  by (simp add: isLeadingSurrogate_def isTrailingSurrogate_def)

lemma Encode_well_formed:
  "well_formed s \<Longrightarrow> \<exists>r. Encode s = Inr r \<and> (\<forall>c \<in> set r. uri_safe c)"
proof (induction s rule: Encode.induct)
  case 1
  show ?case by simp
next
  case (2 c)
  then show ?case
    using percent_encode_safe [OF code_unit_bound [of c]]
    by (auto simp: uri_safe_def)
next
  case (3 c d ds)
  show ?case
  proof (cases "isLeadingSurrogate c")
    case True
    with "3.prems" have d: "isTrailingSurrogate d" and wf: "well_formed ds" by simp_all
    have nu: "\<not> uriUnescaped c" using True unescaped_not_surrogate by blast
    have nt: "\<not> isTrailingSurrogate c" using True by (rule leading_not_trailing)
    from "3.IH"(3) [OF nu _ nt _ wf] True d
    obtain r where r: "Encode ds = Inr r" "\<forall>c \<in> set r. uri_safe c" by auto
    show ?thesis
      using True d nu nt r percent_encode_safe [OF surrogate_pair_bound [OF True d]]
      by auto
  next
    case False
    with "3.prems" have nt: "\<not> isTrailingSurrogate c" and wf: "well_formed (d # ds)" by simp_all
    show ?thesis
    proof (cases "uriUnescaped c")
      case True
      from "3.IH"(1) [OF True wf] obtain r where "Encode (d # ds) = Inr r" "\<forall>c \<in> set r. uri_safe c"
        by auto
      with True show ?thesis by (auto simp: uri_safe_def)
    next
      case nu: False
      from "3.IH"(2) [OF nu _ wf] False nt
      obtain r where "Encode (d # ds) = Inr r" "\<forall>c \<in> set r. uri_safe c" by auto
      with nu False nt show ?thesis
        using percent_encode_safe [OF code_unit_bound [of c]] by auto
    qed
  qed
qed

lemma Encode_malformed: "\<not> well_formed s \<Longrightarrow> Encode s = Inl URIError"
proof (induction s rule: Encode.induct)
  case 1
  then show ?case by simp
next
  case (2 c)
  then show ?case using unescaped_not_surrogate [of c] by auto
next
  case (3 c d ds)
  then show ?case
    using unescaped_not_surrogate [of c] leading_not_trailing [of c]
    by (auto split: if_splits)
qed

lemma createUserAvatarUrl_malformed:
  "\<not> well_formed email \<Longrightarrow> createUserAvatarUrl email = Inl URIError"
  by (simp add: createUserAvatarUrl_def encodeURIComponent_def Encode_malformed)

lemma encode_reserved: "encodeURIComponent [97, 38, 98] = Inr [97, 37, 50, 54, 98]"
  by (simp add: encodeURIComponent_def uriUnescaped_def isLeadingSurrogate_def
      isTrailingSurrogate_def percent_encode_def utf8_octets_def percent_octet_def hex_digit_def)

section \<open>Properties of the schema\<close>

lemma foldr_max_upper: "i \<in> set ids \<Longrightarrow> i \<le> foldr max ids (0::nat)"
  by (induction ids) auto

lemma gen_random_uuid_fresh: "gen_random_uuid ids \<notin> set ids"
proof
  assume "gen_random_uuid ids \<in> set ids"
  then have "gen_random_uuid ids \<le> foldr max ids 0" by (rule foldr_max_upper)
  then show False by (simp add: gen_random_uuid_def)
qed

lemma gen_random_uuid_fresh_map: "x \<in> set xs \<Longrightarrow> gen_random_uuid (map f xs) \<noteq> f x"
  using gen_random_uuid_fresh [of "map f xs"] by force

lemma t_id_update:
  "t_id \<circ> (\<lambda>t. if P t then t\<lparr>t_content := c, t_updated_at := n\<rparr> else t) = t_id"
  by (rule ext) simp

lemma t_user_id_update:
  "t_user_id \<circ> (\<lambda>t. if P t then t\<lparr>t_content := c, t_updated_at := n\<rparr> else t) = t_user_id"
  by (rule ext) simp

lemma u_id_update:
  "u_id \<circ> (\<lambda>u. if P u then u\<lparr>u_name := n, u_bio := b, u_website := w,
       u_avatar_url := a, u_updated_at := m\<rparr> else u) = u_id"
  by (rule ext) simp

lemma u_email_update:
  "u_email \<circ> (\<lambda>u. if P u then u\<lparr>u_name := n, u_bio := b, u_website := w,
       u_avatar_url := a, u_updated_at := m\<rparr> else u) = u_email"
  by (rule ext) simp

lemmas update_maps = t_id_update t_user_id_update u_id_update u_email_update

lemma exec_pk_ok: "pk_ok d \<Longrightarrow> exec now d s = Inr d' \<Longrightarrow> pk_ok d'"
  by (cases s)
    (auto simp: pk_ok_def update_maps gen_random_uuid_fresh_map distinct_map_filter Let_def
          split: option.splits if_splits)

lemma exec_email_unique: "email_unique d \<Longrightarrow> exec now d s = Inr d' \<Longrightarrow> email_unique d'"
  by (cases s)
    (auto simp: email_unique_def update_maps distinct_map_filter Let_def
          split: option.splits if_splits)

lemma exec_follows_unique: "follows_unique d \<Longrightarrow> exec now d s = Inr d' \<Longrightarrow> follows_unique d'"
  by (cases s)
    (auto simp: follows_unique_def distinct_map_filter Let_def
          split: option.splits if_splits)

lemma exec_likes_unique: "likes_unique d \<Longrightarrow> exec now d s = Inr d' \<Longrightarrow> likes_unique d'"
  by (cases s)
    (auto simp: likes_unique_def distinct_map_filter Let_def
          split: option.splits if_splits)

lemma exec_retweets_unique: "retweets_unique d \<Longrightarrow> exec now d s = Inr d' \<Longrightarrow> retweets_unique d'"
  by (cases s)
    (auto simp: retweets_unique_def distinct_map_filter Let_def
          split: option.splits if_splits)


lemma exec_fk_ok: "fk_ok d \<Longrightarrow> exec now d s = Inr d' \<Longrightarrow> fk_ok d'"
proof (cases s)
  case (DELETE_users i)
  assume fk: "fk_ok d" and ex: "exec now d s = Inr d'"
  from ex DELETE_users have d': "d' = d\<lparr>users := filter (\<lambda>u. u_id u \<noteq> i) (users d),
             tweets := filter (\<lambda>t. t_user_id t \<noteq> i) (tweets d),
             follows := filter (\<lambda>f. f_follower_id f \<noteq> i \<and> f_following_id f \<noteq> i) (follows d),
             likes := filter (\<lambda>l. l_user_id l \<noteq> i \<and>
               l_tweet_id l \<notin> set (map t_id (filter (\<lambda>t. t_user_id t = i) (tweets d)))) (likes d),
             retweets := filter (\<lambda>r. r_user_id r \<noteq> i \<and>
               r_tweet_id r \<notin> set (map t_id (filter (\<lambda>t. t_user_id t = i) (tweets d))))
               (retweets d)\<rparr>"
    by (simp add: Let_def)
  have ue: "\<And>j. user_exists d j \<Longrightarrow> j \<noteq> i \<Longrightarrow> user_exists d' j"
    by (auto simp: user_exists_def d')
  have te: "\<And>j. tweet_exists d j \<Longrightarrow>
      j \<notin> set (map t_id (filter (\<lambda>t. t_user_id t = i) (tweets d))) \<Longrightarrow> tweet_exists d' j"
    by (auto simp: tweet_exists_def d')
  from fk show ?thesis
    unfolding fk_ok_def list_all_iff
    apply (intro conjI ballI)
       apply (simp_all add: d')
    using ue te apply (auto simp: d')
    done
next
  case (DELETE_tweets i)
  assume fk: "fk_ok d" and ex: "exec now d s = Inr d'"
  from ex DELETE_tweets have d': "d' = d\<lparr>tweets := filter (\<lambda>t. t_id t \<noteq> i) (tweets d),
            likes := filter (\<lambda>l. l_tweet_id l \<noteq> i) (likes d),
            retweets := filter (\<lambda>r. r_tweet_id r \<noteq> i) (retweets d)\<rparr>"
    by simp
  have ue: "\<And>j. user_exists d j \<Longrightarrow> user_exists d' j"
    by (simp add: user_exists_def d')
  have te: "\<And>j. tweet_exists d j \<Longrightarrow> j \<noteq> i \<Longrightarrow> tweet_exists d' j"
    by (auto simp: tweet_exists_def d')
  from fk show ?thesis
    unfolding fk_ok_def list_all_iff
    apply (intro conjI ballI)
       apply (simp_all add: d')
    using ue te apply (auto simp: d')
    done
next
  case (UPDATE_tweets i content)
  assume fk: "fk_ok d" and ex: "exec now d s = Inr d'"
  from ex UPDATE_tweets obtain c where d': "d' = d\<lparr>tweets := map (\<lambda>t. if t_id t = i
                 then t\<lparr>t_content := c, t_updated_at := now\<rparr> else t) (tweets d)\<rparr>"
    by (auto split: option.splits)
  have ue: "\<And>j. user_exists d j \<Longrightarrow> user_exists d' j"
    by (simp add: user_exists_def d')
  have te: "\<And>j. tweet_exists d j \<Longrightarrow> tweet_exists d' j"
    by (simp add: tweet_exists_def d' t_id_update)
  from fk show ?thesis
    unfolding fk_ok_def list_all_iff
    apply (intro conjI ballI)
       apply (simp_all add: d')
    using ue te apply (auto simp: d')
    done
next
  case (UPDATE_users i nm bio website avatar)
  assume fk: "fk_ok d" and ex: "exec now d s = Inr d'"
  from ex UPDATE_users obtain n where d': "d' = d\<lparr>users := map (\<lambda>u. if u_id u = i
                 then u\<lparr>u_name := n, u_bio := bio, u_website := website,
                        u_avatar_url := avatar, u_updated_at := now\<rparr> else u) (users d)\<rparr>"
    by (auto split: option.splits)
  have ue: "\<And>j. user_exists d j \<Longrightarrow> user_exists d' j"
    by (simp add: user_exists_def d' u_id_update)
  have te: "\<And>j. tweet_exists d j \<Longrightarrow> tweet_exists d' j"
    by (simp add: tweet_exists_def d')
  from fk show ?thesis
    unfolding fk_ok_def list_all_iff
    apply (intro conjI ballI)
       apply (simp_all add: d')
    using ue te apply (auto simp: d')
    done
qed (auto simp: fk_ok_def list_all_iff user_exists_def tweet_exists_def
          split: option.splits if_splits)

lemma exec_schema_ok: "schema_ok d \<Longrightarrow> exec now d s = Inr d' \<Longrightarrow> schema_ok d'"
  unfolding schema_ok_def
  by (blast intro: exec_pk_ok exec_email_unique exec_follows_unique exec_likes_unique
      exec_retweets_unique exec_fk_ok)

lemma distinct_key_filter_le1:
  "distinct (map f xs) \<Longrightarrow> length (filter (\<lambda>x. f x = k) xs) \<le> 1"
proof (induction xs)
  case Nil
  show ?case by simp
next
  case (Cons x xs)
  show ?case
  proof (cases "f x = k")
    case True
    with Cons.prems have "k \<notin> f ` set xs" by simp
    then have "\<forall>y \<in> set xs. f y \<noteq> k" by blast
    then have "filter (\<lambda>x. f x = k) xs = []" by (simp add: filter_empty_conv)
    with True show ?thesis by simp
  next
    case False
    with Cons show ?thesis by simp
  qed
qed

lemma distinct_key_filter_eq1:
  "distinct (map f xs) \<Longrightarrow> k \<in> f ` set xs \<Longrightarrow> length (filter (\<lambda>x. f x = k) xs) = 1"
proof -
  assume d: "distinct (map f xs)" and k: "k \<in> f ` set xs"
  from k have "filter (\<lambda>x. f x = k) xs \<noteq> []" by (auto simp: filter_empty_conv)
  then have "1 \<le> length (filter (\<lambda>x. f x = k) xs)" by (cases "filter (\<lambda>x. f x = k) xs") auto
  with distinct_key_filter_le1 [OF d, of k] show ?thesis by simp
qed

lemma insert_follow_ok:
  "user_exists d a \<Longrightarrow> user_exists d b \<Longrightarrow> \<not> follows_edge d a b \<Longrightarrow>
     exec now d (INSERT_follows (Some a) (Some b)) =
       Inr (d\<lparr>follows := follows d @
         [\<lparr>f_id = gen_random_uuid (map f_id (follows d)), f_follower_id = a,
           f_following_id = b, f_created_at = now\<rparr>]\<rparr>)"
  by (simp add: follows_edge_def)

lemma follows_edge_insert:
  "follows_edge (d\<lparr>follows := follows d @
       [\<lparr>f_id = i, f_follower_id = a, f_following_id = b, f_created_at = now\<rparr>]\<rparr>) x y
     = (follows_edge d x y \<or> (x = a \<and> y = b))"
  by (auto simp: follows_edge_def)

lemma insert_tweet_ok:
  "user_exists d a \<Longrightarrow>
     exec now d (INSERT_tweets (Some a) (Some c)) =
       Inr (d\<lparr>tweets := tweets d @
         [\<lparr>t_id = gen_random_uuid (map t_id (tweets d)), t_user_id = a, t_content = c,
           t_created_at = now, t_updated_at = now\<rparr>]\<rparr>)"
  by simp

subsection \<open>The example databases\<close>

lemma ex_db_simps:
  "users ex_db = [user1, user2]" "tweets ex_db = [tweet1, tweet2]"
  "follows ex_db = [\<lparr>f_id = 1, f_follower_id = 1, f_following_id = 2, f_created_at = 15\<rparr>]"
  "likes ex_db = [\<lparr>l_id = 1, l_user_id = 1, l_tweet_id = 2, l_created_at = 21\<rparr>,
               \<lparr>l_id = 2, l_user_id = 2, l_tweet_id = 2, l_created_at = 22\<rparr>]"
  "retweets ex_db = [\<lparr>r_id = 1, r_user_id = 1, r_tweet_id = 2, r_created_at = 23\<rparr>]"
  by (simp_all add: ex_db_def)

lemma ex_db_schema_ok: "schema_ok ex_db"
  by (simp add: schema_ok_def pk_ok_def email_unique_def follows_unique_def likes_unique_def
      retweets_unique_def fk_ok_def user_exists_def tweet_exists_def ex_db_simps
      user1_def user2_def tweet1_def tweet2_def)

lemma ex_db_like: "exec 30 ex_db (INSERT_likes (Some 2) (Some 1)) = Inr ex_db_liked"
  by (simp add: ex_db_liked_def ex_db_simps user_exists_def tweet_exists_def
      user1_def user2_def tweet1_def tweet2_def gen_random_uuid_def)

lemma ex_db_follow: "exec 30 ex_db (INSERT_follows (Some 2) (Some 1)) = Inr ex_db_followed"
  by (simp add: ex_db_followed_def ex_db_simps user_exists_def
      user1_def user2_def gen_random_uuid_def)

lemma solo_db_simps:
  "users solo_db = [user1]" "tweets solo_db = []" "follows solo_db = []" "likes solo_db = []"
  "retweets solo_db = []"
  by (simp_all add: solo_db_def)

lemma solo_db_schema_ok: "schema_ok solo_db"
  by (simp add: schema_ok_def pk_ok_def email_unique_def follows_unique_def likes_unique_def
      retweets_unique_def fk_ok_def solo_db_simps)

lemma solo_db_insert_self_follow:
  "exec 0 solo_db (INSERT_follows (Some 1) (Some 1)) = Inr solo_db_self_follow"
  by (simp add: solo_db_self_follow_def solo_db_simps user_exists_def user1_def
      gen_random_uuid_def)

section \<open>Properties of \<open>homeFeed\<close>\<close>

lemma left_join_set:
  "x \<in> set (left_join xs) \<longleftrightarrow> (xs = [] \<and> x = None) \<or> (\<exists>y \<in> set xs. x = Some y)"
  by (auto simp: left_join_def)

lemma left_join_not_Nil: "left_join xs \<noteq> []"
  by (simp add: left_join_def)

lemma left_join_Some: "Some y \<in> set (left_join xs) \<longleftrightarrow> y \<in> set xs"
  by (auto simp: left_join_def)

lemma left_join_member: "\<exists>x. x \<in> set (left_join xs)"
  using left_join_not_Nil [of xs] by (cases "left_join xs") auto

lemma homeFeed_from_set:
  "(t, u, l, r) \<in> set (homeFeed_from d) \<longleftrightarrow>
     t \<in> set (tweets d) \<and> u \<in> set (users d) \<and> t_user_id t = u_id u \<and>
     l \<in> set (left_join (filter (\<lambda>l. t_id t = l_tweet_id l) (likes d))) \<and>
     r \<in> set (left_join (filter (\<lambda>r. t_id t = r_tweet_id r) (retweets d)))"
  by (auto simp: homeFeed_from_def)

lemma group_by_set:
  "g \<in> set (group_by key xs) \<longleftrightarrow> (\<exists>x \<in> set xs. g = filter (\<lambda>y. key y = key x) xs)"
  by (auto simp: group_by_def)

lemma homeFeed_select_group:
  "x \<in> set xs \<Longrightarrow>
     \<exists>t u l r ys. filter (\<lambda>y. key y = key x) xs = (t, u, l, r) # ys \<and>
       (t, u, l, r) \<in> set xs \<and> key (t, u, l, r) = key x"
proof -
  assume x: "x \<in> set xs"
  then have "filter (\<lambda>y. key y = key x) xs \<noteq> []" by (auto simp: filter_empty_conv)
  then obtain j ys where j: "filter (\<lambda>y. key y = key x) xs = j # ys"
    by (cases "filter (\<lambda>y. key y = key x) xs") auto
  then have "j \<in> set (filter (\<lambda>y. key y = key x) xs)" by simp
  then have "j \<in> set xs" "key j = key x" by simp_all
  with j show ?thesis by (cases j) auto
qed


lemma homeFeed_select_singleton:
  "row \<in> set (homeFeed_select g) \<longleftrightarrow> homeFeed_select g = [row]"
  by (auto simp: homeFeed_select_def split: list.splits prod.splits)

lemma homeFeed_rows_set:
  "row \<in> set (concat (map homeFeed_select (group_by key xs))) \<longleftrightarrow>
     (\<exists>x \<in> set xs. homeFeed_select (filter (\<lambda>y. key y = key x) xs) = [row])"
proof
  assume "row \<in> set (concat (map homeFeed_select (group_by key xs)))"
  then obtain g where g: "g \<in> set (group_by key xs)" and r: "row \<in> set (homeFeed_select g)"
    by auto
  from g obtain x where "x \<in> set xs" "g = filter (\<lambda>y. key y = key x) xs"
    by (auto simp: group_by_set)
  with r show "\<exists>x \<in> set xs. homeFeed_select (filter (\<lambda>y. key y = key x) xs) = [row]"
    by (auto simp: homeFeed_select_singleton)
next
  assume "\<exists>x \<in> set xs. homeFeed_select (filter (\<lambda>y. key y = key x) xs) = [row]"
  then obtain x where x: "x \<in> set xs"
    and r: "homeFeed_select (filter (\<lambda>y. key y = key x) xs) = [row]"
    by blast
  from x have "filter (\<lambda>y. key y = key x) xs \<in> set (group_by key xs)"
    unfolding group_by_set by blast
  moreover from r have "row \<in> set (homeFeed_select (filter (\<lambda>y. key y = key x) xs))" by simp
  ultimately show "row \<in> set (concat (map homeFeed_select (group_by key xs)))"
    unfolding set_concat set_map by blast
qed

lemma homeFeed_query_set:
  "row \<in> set (homeFeed_query d tie uid) \<longleftrightarrow>
     (\<exists>x \<in> set (filter (homeFeed_where d uid) (homeFeed_from d)).
        homeFeed_select (filter (\<lambda>y. group_key y = group_key x)
          (filter (homeFeed_where d uid) (homeFeed_from d))) = [row])"
  unfolding homeFeed_query_def order_by_created_at_desc_def homeFeed_grouped_def
  by (simp only: set_sort homeFeed_rows_set)

lemma count_distinct_card: "count_distinct vs = card {x. Some x \<in> set vs}"
proof -
  have "set (concat (map (\<lambda>v. case v of None \<Rightarrow> [] | Some x \<Rightarrow> [x]) vs)) = {x. Some x \<in> set vs}"
    by (auto split: option.splits)
  then show ?thesis by (simp add: count_distinct_def length_remdups_card_conv)
qed

lemma card_key_image:
  "distinct (map f xs) \<Longrightarrow> card (f ` {x \<in> set xs. P x}) = length (filter P xs)"
proof -
  assume d: "distinct (map f xs)"
  then have "distinct (map f (filter P xs))" by (rule distinct_map_filter)
  then have "card (set (map f (filter P xs))) = length (map f (filter P xs))"
    by (rule distinct_card)
  then show ?thesis by simp
qed

text \<open>The rows of the filtered join that belong to the group of a row.\<close>

lemma group_likes:
  assumes j: "(t, u, l, r) \<in> set (filter (homeFeed_where d uid) (homeFeed_from d))"
  shows "{x. Some x \<in> set (map (\<lambda>(t, u, l, r). map_option l_id l)
            (filter (\<lambda>y. group_key y = group_key (t, u, l, r))
               (filter (homeFeed_where d uid) (homeFeed_from d))))}
         = l_id ` {x \<in> set (likes d). l_tweet_id x = t_id t}"
proof (intro set_eqI iffI)
  fix i
  assume "i \<in> {x. Some x \<in> set (map (\<lambda>(t, u, l, r). map_option l_id l)
            (filter (\<lambda>y. group_key y = group_key (t, u, l, r))
               (filter (homeFeed_where d uid) (homeFeed_from d))))}"
  then have "Some i \<in> (\<lambda>(t, u, l, r). map_option l_id l) `
      set (filter (\<lambda>y. group_key y = group_key (t, u, l, r))
               (filter (homeFeed_where d uid) (homeFeed_from d)))"
    by simp
  then obtain y where y: "y \<in> set (filter (\<lambda>y. group_key y = group_key (t, u, l, r))
               (filter (homeFeed_where d uid) (homeFeed_from d)))"
    and e: "Some i = (\<lambda>(t, u, l, r). map_option l_id l) y"
    by (rule imageE)
  obtain t' u' l' r' where y': "y = (t', u', l', r')" by (cases y) auto
  from y y' have m: "(t', u', l', r') \<in> set (homeFeed_from d)"
    and k: "group_key (t', u', l', r') = group_key (t, u, l, r)"
    by simp_all
  from e y' have i: "map_option l_id l' = Some i" by simp
  from i obtain x where x: "l' = Some x" "l_id x = i" by auto
  from m x have "x \<in> set (likes d)" "l_tweet_id x = t_id t'"
    by (simp_all add: homeFeed_from_set left_join_Some)
  moreover from k have "t_id t' = t_id t" by (simp add: group_key_def)
  ultimately show "i \<in> l_id ` {x \<in> set (likes d). l_tweet_id x = t_id t}" using x by auto
next
  fix i
  assume "i \<in> l_id ` {x \<in> set (likes d). l_tweet_id x = t_id t}"
  then obtain x where x: "x \<in> set (likes d)" "l_tweet_id x = t_id t" "l_id x = i" by auto
  from j have m: "(t, u, l, r) \<in> set (homeFeed_from d)" and w: "in_feed d uid t"
    by (simp_all add: homeFeed_where_def)
  from m x have "(t, u, Some x, r) \<in> set (homeFeed_from d)"
    by (simp add: homeFeed_from_set left_join_Some)
  with w have "(t, u, Some x, r) \<in> set (filter (\<lambda>y. group_key y = group_key (t, u, l, r))
               (filter (homeFeed_where d uid) (homeFeed_from d)))"
    by (simp add: homeFeed_where_def group_key_def)
  then have "map_option l_id (Some x) \<in> set (map (\<lambda>(t, u, l, r). map_option l_id l)
            (filter (\<lambda>y. group_key y = group_key (t, u, l, r))
               (filter (homeFeed_where d uid) (homeFeed_from d))))"
    by (metis (mono_tags, lifting) case_prod_conv image_eqI set_map)
  with x show "i \<in> {x. Some x \<in> set (map (\<lambda>(t, u, l, r). map_option l_id l)
            (filter (\<lambda>y. group_key y = group_key (t, u, l, r))
               (filter (homeFeed_where d uid) (homeFeed_from d))))}"
    by simp
qed


lemma group_retweets:
  assumes j: "(t, u, l, r) \<in> set (filter (homeFeed_where d uid) (homeFeed_from d))"
  shows "{x. Some x \<in> set (map (\<lambda>(t, u, l, r). map_option r_id r)
            (filter (\<lambda>y. group_key y = group_key (t, u, l, r))
               (filter (homeFeed_where d uid) (homeFeed_from d))))}
         = r_id ` {x \<in> set (retweets d). r_tweet_id x = t_id t}"
proof (intro set_eqI iffI)
  fix i
  assume "i \<in> {x. Some x \<in> set (map (\<lambda>(t, u, l, r). map_option r_id r)
            (filter (\<lambda>y. group_key y = group_key (t, u, l, r))
               (filter (homeFeed_where d uid) (homeFeed_from d))))}"
  then have "Some i \<in> (\<lambda>(t, u, l, r). map_option r_id r) `
      set (filter (\<lambda>y. group_key y = group_key (t, u, l, r))
               (filter (homeFeed_where d uid) (homeFeed_from d)))"
    by simp
  then obtain y where y: "y \<in> set (filter (\<lambda>y. group_key y = group_key (t, u, l, r))
               (filter (homeFeed_where d uid) (homeFeed_from d)))"
    and e: "Some i = (\<lambda>(t, u, l, r). map_option r_id r) y"
    by (rule imageE)
  obtain t' u' l' r' where y': "y = (t', u', l', r')" by (cases y) auto
  from y y' have m: "(t', u', l', r') \<in> set (homeFeed_from d)"
    and k: "group_key (t', u', l', r') = group_key (t, u, l, r)"
    by simp_all
  from e y' have i: "map_option r_id r' = Some i" by simp
  from i obtain x where x: "r' = Some x" "r_id x = i" by auto
  from m x have "x \<in> set (retweets d)" "r_tweet_id x = t_id t'"
    by (simp_all add: homeFeed_from_set left_join_Some)
  moreover from k have "t_id t' = t_id t" by (simp add: group_key_def)
  ultimately show "i \<in> r_id ` {x \<in> set (retweets d). r_tweet_id x = t_id t}" using x by auto
next
  fix i
  assume "i \<in> r_id ` {x \<in> set (retweets d). r_tweet_id x = t_id t}"
  then obtain x where x: "x \<in> set (retweets d)" "r_tweet_id x = t_id t" "r_id x = i" by auto
  from j have m: "(t, u, l, r) \<in> set (homeFeed_from d)" and w: "in_feed d uid t"
    by (simp_all add: homeFeed_where_def)
  from m x have "(t, u, l, Some x) \<in> set (homeFeed_from d)"
    by (simp add: homeFeed_from_set left_join_Some)
  with w have "(t, u, l, Some x) \<in> set (filter (\<lambda>y. group_key y = group_key (t, u, l, r))
               (filter (homeFeed_where d uid) (homeFeed_from d)))"
    by (simp add: homeFeed_where_def group_key_def)
  then have "map_option r_id (Some x) \<in> set (map (\<lambda>(t, u, l, r). map_option r_id r)
            (filter (\<lambda>y. group_key y = group_key (t, u, l, r))
               (filter (homeFeed_where d uid) (homeFeed_from d))))"
    by (metis (mono_tags, lifting) case_prod_conv image_eqI set_map)
  with x show "i \<in> {x. Some x \<in> set (map (\<lambda>(t, u, l, r). map_option r_id r)
            (filter (\<lambda>y. group_key y = group_key (t, u, l, r))
               (filter (homeFeed_where d uid) (homeFeed_from d))))}"
    by simp
qed


lemma homeFeed_query_row:
  assumes "row \<in> set (homeFeed_query d tie uid)"
  obtains t u l r ys where
    "(t, u, l, r) \<in> set (filter (homeFeed_where d uid) (homeFeed_from d))"
    "filter (\<lambda>y. group_key y = group_key (t, u, l, r))
       (filter (homeFeed_where d uid) (homeFeed_from d)) = (t, u, l, r) # ys"
    "homeFeed_select ((t, u, l, r) # ys) = [row]"
proof -
  from assms obtain x where x: "x \<in> set (filter (homeFeed_where d uid) (homeFeed_from d))"
    and s: "homeFeed_select (filter (\<lambda>y. group_key y = group_key x)
          (filter (homeFeed_where d uid) (homeFeed_from d))) = [row]"
    unfolding homeFeed_query_set by blast
  from homeFeed_select_group [OF x, of group_key]
  obtain t u l r ys where
    g: "filter (\<lambda>y. group_key y = group_key x)
          (filter (homeFeed_where d uid) (homeFeed_from d)) = (t, u, l, r) # ys"
    and m: "(t, u, l, r) \<in> set (filter (homeFeed_where d uid) (homeFeed_from d))"
    and k: "group_key (t, u, l, r) = group_key x"
    by blast
  from g k have "filter (\<lambda>y. group_key y = group_key (t, u, l, r))
       (filter (homeFeed_where d uid) (homeFeed_from d)) = (t, u, l, r) # ys"
    by simp
  moreover from s g have "homeFeed_select ((t, u, l, r) # ys) = [row]" by simp
  ultimately show ?thesis using m that by blast
qed

lemma homeFeed_query_counts:
  assumes pk: "pk_ok d" and row: "row \<in> set (homeFeed_query d tie uid)"
  shows "likes_count row = like_count d (t_id row) \<and>
         retweets_count row = retweet_count d (t_id row)"
proof -
  from row obtain t u l r ys where
    m: "(t, u, l, r) \<in> set (filter (homeFeed_where d uid) (homeFeed_from d))"
    and g: "filter (\<lambda>y. group_key y = group_key (t, u, l, r))
       (filter (homeFeed_where d uid) (homeFeed_from d)) = (t, u, l, r) # ys"
    and s: "homeFeed_select ((t, u, l, r) # ys) = [row]"
    by (rule homeFeed_query_row)
  from s have id: "t_id row = t_id t"
    and lc: "likes_count row =
      count_distinct (map (\<lambda>(t, u, l, r). map_option l_id l) ((t, u, l, r) # ys))"
    and rc: "retweets_count row =
      count_distinct (map (\<lambda>(t, u, l, r). map_option r_id r) ((t, u, l, r) # ys))"
    by (auto simp: homeFeed_select_def)
  from pk have dl: "distinct (map l_id (likes d))" and dr: "distinct (map r_id (retweets d))"
    by (simp_all add: pk_ok_def)
  have "likes_count row = card (l_id ` {x \<in> set (likes d). l_tweet_id x = t_id t})"
    unfolding lc g [symmetric] count_distinct_card group_likes [OF m] ..
  also have "\<dots> = like_count d (t_id t)"
    unfolding like_count_def using dl by (rule card_key_image)
  finally have a: "likes_count row = like_count d (t_id row)" by (simp add: id)
  have "retweets_count row = card (r_id ` {x \<in> set (retweets d). r_tweet_id x = t_id t})"
    unfolding rc g [symmetric] count_distinct_card group_retweets [OF m] ..
  also have "\<dots> = retweet_count d (t_id t)"
    unfolding retweet_count_def using dr by (rule card_key_image)
  finally have b: "retweets_count row = retweet_count d (t_id row)" by (simp add: id)
  from a b show ?thesis ..
qed

lemma set_sql_limit: "set (sql_limit n xs) \<subseteq> set xs"
  by (cases n) (auto simp: sql_limit_def dest: in_set_takeD)

lemma set_sql_offset: "set (sql_offset n xs) \<subseteq> set xs"
  by (cases n) (auto simp: sql_offset_def dest: in_set_dropD)

lemma homeFeed_rows_subset:
  "homeFeed d tie req_user limit offset = Inr rows \<Longrightarrow>
     \<exists>uid. req_user = Some uid \<and> set rows \<subseteq> set (homeFeed_query d tie uid)"
proof -
  assume h: "homeFeed d tie req_user limit offset = Inr rows"
  then obtain uid where u: "req_user = Some uid"
    by (cases req_user) (simp_all add: homeFeed_def)
  from h u obtain n m where "rows = sql_limit n (sql_offset m (homeFeed_query d tie uid))"
    by (auto simp: homeFeed_def Let_def split: if_splits)
  then have "set rows \<subseteq> set (homeFeed_query d tie uid)"
    using set_sql_limit set_sql_offset by fast
  with u show ?thesis by simp
qed

lemma following_ids_edge: "x \<in> set (following_ids d uid) \<longleftrightarrow> follows_edge d uid x"
  by (auto simp: following_ids_def follows_edge_def)

lemma homeFeed_select_tweet:
  "homeFeed_select ((t, u, l, r) # ys) = [row] \<Longrightarrow> feed_tweet row = t"
  by (auto simp: homeFeed_select_def feed_tweet_def)

lemma homeFeed_query_tweet_in_feed:
  assumes "row \<in> set (homeFeed_query d tie uid)"
  shows "feed_tweet row \<in> set (tweets d) \<and> in_feed d uid (feed_tweet row)"
proof -
  from assms obtain t u l r ys where
    m: "(t, u, l, r) \<in> set (filter (homeFeed_where d uid) (homeFeed_from d))"
    and s: "homeFeed_select ((t, u, l, r) # ys) = [row]"
    by (rule homeFeed_query_row)
  from s have "feed_tweet row = t" by (rule homeFeed_select_tweet)
  with m show ?thesis by (simp add: homeFeed_from_set homeFeed_where_def)
qed

lemma in_feed_has_row:
  assumes ok: "schema_ok d" and t: "t \<in> set (tweets d)" and f: "in_feed d uid t"
  shows "\<exists>row \<in> set (homeFeed_query d tie uid). feed_tweet row = t"
proof -
  from ok t have "user_exists d (t_user_id t)"
    by (simp add: schema_ok_def fk_ok_def list_all_iff)
  then obtain u where u: "u \<in> set (users d)" "t_user_id t = u_id u"
    by (auto simp: user_exists_def)
  obtain l where l: "l \<in> set (left_join (filter (\<lambda>l. t_id t = l_tweet_id l) (likes d)))"
    using left_join_member by blast
  obtain r where r: "r \<in> set (left_join (filter (\<lambda>r. t_id t = r_tweet_id r) (retweets d)))"
    using left_join_member by blast
  from t u l r f have x: "(t, u, l, r) \<in> set (filter (homeFeed_where d uid) (homeFeed_from d))"
    by (simp add: homeFeed_from_set homeFeed_where_def)
  from homeFeed_select_group [OF x, of group_key]
  obtain t' u' l' r' ys where
    g: "filter (\<lambda>y. group_key y = group_key (t, u, l, r))
          (filter (homeFeed_where d uid) (homeFeed_from d)) = (t', u', l', r') # ys"
    and m: "(t', u', l', r') \<in> set (filter (homeFeed_where d uid) (homeFeed_from d))"
    and k: "group_key (t', u', l', r') = group_key (t, u, l, r)"
    by blast
  from m have t': "t' \<in> set (tweets d)" by (simp add: homeFeed_from_set)
  from k have "t_id t' = t_id t" by (simp add: group_key_def)
  moreover from ok have "inj_on t_id (set (tweets d))"
    by (simp add: schema_ok_def pk_ok_def distinct_map)
  ultimately have eq: "t' = t" using t t' by (auto dest: inj_onD)
  obtain row where row: "homeFeed_select ((t', u', l', r') # ys) = [row]"
    by (simp add: homeFeed_select_def)
  then have "feed_tweet row = t" using eq by (simp add: homeFeed_select_tweet)
  moreover from row g x have "row \<in> set (homeFeed_query d tie uid)"
    unfolding homeFeed_query_set by (metis)
  ultimately show ?thesis by blast
qed

lemma homeFeed_query_tweets:
  "schema_ok d \<Longrightarrow>
     set (map feed_tweet (homeFeed_query d tie uid)) = {t \<in> set (tweets d). in_feed d uid t}"
proof (intro set_eqI iffI)
  fix t
  assume "t \<in> set (map feed_tweet (homeFeed_query d tie uid))"
  then show "t \<in> {t \<in> set (tweets d). in_feed d uid t}"
    using homeFeed_query_tweet_in_feed by auto
next
  fix t
  assume "schema_ok d" and "t \<in> {t \<in> set (tweets d). in_feed d uid t}"
  then have "\<exists>row \<in> set (homeFeed_query d tie uid). feed_tweet row = t"
    using in_feed_has_row by simp
  then show "t \<in> set (map feed_tweet (homeFeed_query d tie uid))" by auto
qed

lemma homeFeed_query_sorted:
  "sorted_wrt (\<lambda>a b. t_created_at b \<le> t_created_at a) (homeFeed_query d tie uid)"
proof -
  have "sorted (map (\<lambda>row. - int (t_created_at row)) (homeFeed_query d tie uid))"
    unfolding homeFeed_query_def order_by_created_at_desc_def homeFeed_grouped_def by (rule sorted_sort_key)
  then show ?thesis by (simp add: sorted_map)
qed

text \<open>The key of a row's group can be read off the row.\<close>

lemma concat_singletons: "(\<And>k. k \<in> set ks \<Longrightarrow> f k = [k]) \<Longrightarrow> concat (map f ks) = ks"
  by (induction ks) simp_all

lemma homeFeed_row_keys:
  assumes j: "\<And>t u l r. (t, u, l, r) \<in> set xs \<Longrightarrow> t_user_id t = u_id u"
  shows "map (\<lambda>row. (t_id row, t_user_id row))
           (concat (map homeFeed_select (group_by group_key xs)))
         = remdups (map group_key xs)"
proof -
  have "concat (map (\<lambda>k. map (\<lambda>row. (t_id row, t_user_id row))
            (homeFeed_select (filter (\<lambda>x. group_key x = k) xs))) (remdups (map group_key xs)))
        = remdups (map group_key xs)"
  proof (rule concat_singletons)
    fix k
    assume "k \<in> set (remdups (map group_key xs))"
    then obtain x where x: "x \<in> set xs" and k: "k = group_key x" by auto
    from homeFeed_select_group [OF x, of group_key]
    obtain t u l r ys where
      g: "filter (\<lambda>y. group_key y = group_key x) xs = (t, u, l, r) # ys"
      and m: "(t, u, l, r) \<in> set xs"
      and e: "group_key (t, u, l, r) = group_key x"
      by blast
    from j [OF m] e k have "(t_id t, t_user_id t) = k" by (simp add: group_key_def)
    then show "map (\<lambda>row. (t_id row, t_user_id row))
            (homeFeed_select (filter (\<lambda>x. group_key x = k) xs)) = [k]"
      unfolding k g by (simp add: homeFeed_select_def k)
  qed
  then show ?thesis by (simp add: group_by_def map_concat comp_def)
qed

lemma homeFeed_query_distinct_keys:
  "distinct (map (\<lambda>row. (t_id row, t_user_id row)) (homeFeed_query d tie uid))"
proof -
  have "map (\<lambda>row. (t_id row, t_user_id row))
           (concat (map homeFeed_select
              (group_by group_key (filter (homeFeed_where d uid) (homeFeed_from d)))))
         = remdups (map group_key (filter (homeFeed_where d uid) (homeFeed_from d)))"
    by (rule homeFeed_row_keys) (simp add: homeFeed_from_set)
  then have "distinct (map (\<lambda>row. (t_id row, t_user_id row))
           (concat (map homeFeed_select
              (group_by group_key (filter (homeFeed_where d uid) (homeFeed_from d))))))"
    by simp
  then have "distinct (concat (map homeFeed_select
              (group_by group_key (filter (homeFeed_where d uid) (homeFeed_from d)))))
    \<and> inj_on (\<lambda>row. (t_id row, t_user_id row)) (set (concat (map homeFeed_select
              (group_by group_key (filter (homeFeed_where d uid) (homeFeed_from d))))))"
    by (simp only: distinct_map)
  then show ?thesis
    unfolding homeFeed_query_def order_by_created_at_desc_def homeFeed_grouped_def
    by (simp only: distinct_map distinct_sort set_sort) 
qed

lemma homeFeed_query_distinct: "distinct (homeFeed_query d tie uid)"
  using homeFeed_query_distinct_keys [of d tie uid] by (simp only: distinct_map)

lemma homeFeed_query_distinct_ids:
  assumes ok: "schema_ok d"
  shows "distinct (map t_id (homeFeed_query d tie uid))"
proof -
  have "inj_on t_id (set (homeFeed_query d tie uid))"
  proof (rule inj_onI)
    fix a b
    assume a: "a \<in> set (homeFeed_query d tie uid)" and b: "b \<in> set (homeFeed_query d tie uid)"
      and e: "t_id a = t_id b"
    from a b have ta: "feed_tweet a \<in> set (tweets d)" and tb: "feed_tweet b \<in> set (tweets d)"
      using homeFeed_query_tweet_in_feed by blast+
    from ok have "inj_on t_id (set (tweets d))"
      by (simp add: schema_ok_def pk_ok_def distinct_map)
    moreover from e have "t_id (feed_tweet a) = t_id (feed_tweet b)" by (simp add: feed_tweet_def)
    ultimately have "feed_tweet a = feed_tweet b" using ta tb by (auto dest: inj_onD)
    then have "t_user_id a = t_user_id b"
      by (metis feed_tweet_def tweets_row.select_convs(2))
    with e have "(t_id a, t_user_id a) = (t_id b, t_user_id b)" by simp
    moreover have "inj_on (\<lambda>row. (t_id row, t_user_id row)) (set (homeFeed_query d tie uid))"
      using homeFeed_query_distinct_keys [of d tie uid] by (simp only: distinct_map)
    ultimately show "a = b" using a b by (auto dest: inj_onD)
  qed
  with homeFeed_query_distinct show ?thesis by (simp add: distinct_map)
qed


text \<open>Every call of the resolver by a user with a session.\<close>

lemma homeFeed_call:
  "homeFeed d tie (Some uid) limit offset =
     (if (\<exists>v. limit = Val v \<and> v < 0) \<or> (\<exists>v. offset = Val v \<and> v < 0)
        then Inl INTERNAL_SERVER_ERROR
      else Inr ((case limit of Undefined \<Rightarrow> take 20 | Null \<Rightarrow> id | Val v \<Rightarrow> take (nat v))
                ((case offset of Undefined \<Rightarrow> id | Null \<Rightarrow> id | Val v \<Rightarrow> drop (nat v))
                   (homeFeed_query d tie uid))))"
  by (cases limit; cases offset)
    (simp_all add: homeFeed_def js_default_def sql_negative_def sql_limit_def sql_offset_def)



subsection \<open>The order among rows of equal \<open>created_at\<close>\<close>

text \<open>Whatever the rank, the result is a permutation of the rows, sorted by the key.\<close>

lemma order_by_sound:
  "set (order_by_created_at_desc tie rows) = set rows \<and>
   length (order_by_created_at_desc tie rows) = length rows \<and>
   distinct (order_by_created_at_desc tie rows) = distinct rows \<and>
   sorted_wrt (\<lambda>a b. t_created_at b \<le> t_created_at a) (order_by_created_at_desc tie rows)"
proof -
  have "sorted (map (\<lambda>row. - int (t_created_at row)) (order_by_created_at_desc tie rows))"
    unfolding order_by_created_at_desc_def by (rule sorted_sort_key)
  then have "sorted_wrt (\<lambda>a b. t_created_at b \<le> t_created_at a)
      (order_by_created_at_desc tie rows)"
    by (simp add: sorted_map)
  then show ?thesis by (simp add: order_by_created_at_desc_def)
qed

text \<open>Every sorted permutation of rows that differ is the result for some rank.\<close>

lemma order_by_complete:
  assumes d: "distinct out" and s: "set out = set rows" and r: "distinct rows"
    and o: "sorted_wrt (\<lambda>a b. t_created_at b \<le> t_created_at a) out"
  shows "\<exists>tie. order_by_created_at_desc tie rows = out"
proof -
  define tie where "tie = (\<lambda>x. THE i. i < length out \<and> out ! i = x)"
  have pos: "tie (out ! i) = i" if "i < length out" for i
  proof -
    have "(THE j. j < length out \<and> out ! j = out ! i) = i"
      using that d by (intro the_equality) (auto simp: nth_eq_iff_index_eq)
    then show ?thesis by (simp add: tie_def)
  qed
  have m: "map tie out = [0..<length out]"
    by (rule nth_equalityI) (simp_all add: pos)
  have inj: "inj_on tie (set out)"
  proof (rule inj_onI)
    fix x y
    assume "x \<in> set out" "y \<in> set out" and e: "tie x = tie y"
    then obtain i j where "i < length out" "out ! i = x" "j < length out" "out ! j = y"
      by (auto simp: in_set_conv_nth)
    with e pos show "x = y" by metis
  qed
  have "map tie (sort_key tie rows) = map tie out"
  proof (rule sorted_distinct_set_unique)
    show "sorted (map tie (sort_key tie rows))" by (rule sorted_sort_key)
    show "distinct (map tie (sort_key tie rows))"
      using r inj s by (simp add: distinct_map)
    show "sorted (map tie out)" by (simp add: m)
    show "distinct (map tie out)" by (simp add: m)
    show "set (map tie (sort_key tie rows)) = set (map tie out)" using s by simp
  qed
  moreover have "inj_on tie (set (sort_key tie rows) \<union> set out)" using inj s by simp
  ultimately have "sort_key tie rows = out" by (simp add: inj_on_map_eq_map)
  moreover have "sort_key (\<lambda>row. - int (t_created_at row)) out = out"
    using o by (intro sort_key_id_if_sorted) (simp add: sorted_map)
  ultimately have "order_by_created_at_desc tie rows = out"
    by (simp add: order_by_created_at_desc_def)
  then show ?thesis by blast
qed

text \<open>Where no two rows share \<open>created_at\<close>, the rank has no say.\<close>

lemma order_by_unique:
  assumes c: "distinct (map t_created_at rows)"
  shows "order_by_created_at_desc tie rows = order_by_created_at_desc tie' rows"
proof -
  let ?f = "\<lambda>row :: feed_row. - int (t_created_at row)"
  let ?xs = "order_by_created_at_desc tie rows"
  let ?ys = "order_by_created_at_desc tie' rows"
  from c have dr: "distinct rows" and ic: "inj_on t_created_at (set rows)"
    by (simp_all add: distinct_map)
  have inj: "inj_on ?f (set rows)"
    by (rule inj_onI) (use ic in \<open>auto dest: inj_onD\<close>)
  have sx: "set ?xs = set rows" and sy: "set ?ys = set rows"
    by (simp_all add: order_by_sound)
  have dx: "distinct ?xs" and dy: "distinct ?ys" using dr by (simp_all add: order_by_sound)
  have "map ?f ?xs = map ?f ?ys"
  proof (rule sorted_distinct_set_unique)
    show "sorted (map ?f ?xs)"
      unfolding order_by_created_at_desc_def by (rule sorted_sort_key)
    show "sorted (map ?f ?ys)"
      unfolding order_by_created_at_desc_def by (rule sorted_sort_key)
    show "distinct (map ?f ?xs)" using dx inj sx by (simp add: distinct_map)
    show "distinct (map ?f ?ys)" using dy inj sy by (simp add: distinct_map)
    show "set (map ?f ?xs) = set (map ?f ?ys)" using sx sy by simp
  qed
  moreover have "inj_on ?f (set ?xs \<union> set ?ys)" using inj sx sy by simp
  ultimately show ?thesis by (simp add: inj_on_map_eq_map)
qed

lemma homeFeed_query_unique:
  "distinct (map t_created_at (homeFeed_grouped d uid)) \<Longrightarrow>
     homeFeed_query d tie uid = homeFeed_query d tie' uid"
  unfolding homeFeed_query_def by (rule order_by_unique)

text \<open>
  The rows that the query selects differ from each other, so every order of them that
  \<open>ORDER BY t.created_at DESC\<close> allows is the result of the query for some choice.
\<close>

lemma homeFeed_grouped_distinct: "distinct (homeFeed_grouped d uid)"
  using homeFeed_query_distinct [of d no_tie uid]
  by (simp add: homeFeed_query_def order_by_sound)

lemma homeFeed_query_complete:
  assumes "distinct out" and "set out = set (homeFeed_grouped d uid)"
    and "sorted_wrt (\<lambda>a b. t_created_at b \<le> t_created_at a) out"
  shows "\<exists>tie. homeFeed_query d tie uid = out"
  unfolding homeFeed_query_def
  using assms(1,2) homeFeed_grouped_distinct assms(3) by (rule order_by_complete)

subsection \<open>The feeds of the example databases\<close>

lemma ex_grouped: "homeFeed_grouped ex_db 1 = [feed_row1, feed_row2]"
  by (simp add: homeFeed_grouped_def group_by_def homeFeed_select_def
      homeFeed_where_def in_feed_def following_ids_def homeFeed_from_def left_join_def
      group_key_def count_distinct_def ex_db_simps user1_def user2_def tweet1_def tweet2_def
      feed_row1_def feed_row2_def)

lemma ex_grouped_times: "distinct (map t_created_at (homeFeed_grouped ex_db 1))"
  unfolding ex_grouped by (simp add: feed_row1_def feed_row2_def)

lemma ex_query: "homeFeed_query ex_db tie 1 = [feed_row2, feed_row1]"
proof -
  have "homeFeed_query ex_db no_tie 1 = [feed_row2, feed_row1]"
    unfolding homeFeed_query_def order_by_created_at_desc_def ex_grouped
    by (simp add: no_tie_def feed_row1_def feed_row2_def)
  with homeFeed_query_unique [OF ex_grouped_times, of tie no_tie] show ?thesis by simp
qed

lemma busy_query: "homeFeed_query busy_db no_tie 1 = map busy_row (rev [1..<22])"
  by code_simp





section \<open>The claims\<close>

text \<open>
  C1. For a user \<open>u\<close> with a session, every call of \<open>homeFeed\<close> returns a page of the
  timeline of \<open>u\<close>, or fails when its limit or offset is negative. Under the constraints
  of the schema the timeline holds, once each, the tweets whose author is \<open>u\<close> or a user
  that \<open>u\<close> follows, and nothing else, ordered by \<open>created_at\<close> descending, whatever the
  database chooses among rows of equal \<open>created_at\<close>. The page starts at the offset (0
  when the offset is left out or null) and holds at most as many rows as the limit says
  (20 when the limit is left out, all when it is null).
\<close>

theorem homeFeed_timeline:
  "schema_ok d \<Longrightarrow>
     set (map feed_tweet (homeFeed_query d tie uid)) =
       {t \<in> set (tweets d). t_user_id t = uid \<or> follows_edge d uid (t_user_id t)} \<and>
     distinct (map t_id (homeFeed_query d tie uid)) \<and>
     sorted_wrt (\<lambda>a b. t_created_at b \<le> t_created_at a) (homeFeed_query d tie uid) \<and>
     homeFeed d tie (Some uid) limit offset =
       (if (\<exists>v. limit = Val v \<and> v < 0) \<or> (\<exists>v. offset = Val v \<and> v < 0)
          then Inl INTERNAL_SERVER_ERROR
        else Inr ((case limit of Undefined \<Rightarrow> take 20 | Null \<Rightarrow> id | Val v \<Rightarrow> take (nat v))
                  ((case offset of Undefined \<Rightarrow> id | Null \<Rightarrow> id | Val v \<Rightarrow> drop (nat v))
                     (homeFeed_query d tie uid))))"
proof -
  assume ok: "schema_ok d"
  have "{t \<in> set (tweets d). in_feed d uid t} =
      {t \<in> set (tweets d). t_user_id t = uid \<or> follows_edge d uid (t_user_id t)}"
    by (simp add: in_feed_def following_ids_edge)
  with homeFeed_query_tweets [OF ok, of tie uid]
  have "set (map feed_tweet (homeFeed_query d tie uid)) =
       {t \<in> set (tweets d). t_user_id t = uid \<or> follows_edge d uid (t_user_id t)}"
    by simp
  then show ?thesis
    using homeFeed_query_distinct_ids [OF ok, of tie uid] homeFeed_query_sorted [of d tie uid]
      homeFeed_call [of d tie uid limit offset]
    by blast
qed

theorem homeFeed_timeline_witness:
  "schema_ok ex_db \<and>
   set (map feed_tweet (homeFeed_query ex_db no_tie 1)) =
     {t \<in> set (tweets ex_db). t_user_id t = 1 \<or> follows_edge ex_db 1 (t_user_id t)} \<and>
   distinct (map t_id (homeFeed_query ex_db no_tie 1)) \<and>
   sorted_wrt (\<lambda>a b. t_created_at b \<le> t_created_at a) (homeFeed_query ex_db no_tie 1) \<and>
   homeFeed ex_db no_tie (Some 1) Undefined Undefined = Inr [feed_row2, feed_row1] \<and>
   homeFeed ex_db no_tie (Some 1) (Val 1) Undefined = Inr [feed_row2] \<and>
   homeFeed ex_db no_tie (Some 1) Null (Val 1) = Inr [feed_row1] \<and>
   homeFeed ex_db no_tie (Some 1) (Val (- 1)) Undefined = Inl INTERNAL_SERVER_ERROR"
proof -
  from homeFeed_timeline [OF ex_db_schema_ok, of no_tie 1 Undefined Undefined]
    ex_query [of no_tie]
  have a: "set (map feed_tweet (homeFeed_query ex_db no_tie 1)) =
     {t \<in> set (tweets ex_db). t_user_id t = 1 \<or> follows_edge ex_db 1 (t_user_id t)}"
    and b: "distinct (map t_id (homeFeed_query ex_db no_tie 1))"
    and c: "sorted_wrt (\<lambda>a b. t_created_at b \<le> t_created_at a) (homeFeed_query ex_db no_tie 1)"
    and p1: "homeFeed ex_db no_tie (Some 1) Undefined Undefined = Inr [feed_row2, feed_row1]"
    by simp_all
  from homeFeed_timeline [OF ex_db_schema_ok, of no_tie 1 "Val 1" Undefined]
    ex_query [of no_tie]
  have p2: "homeFeed ex_db no_tie (Some 1) (Val 1) Undefined = Inr [feed_row2]"
    by simp
  from homeFeed_timeline [OF ex_db_schema_ok, of no_tie 1 Null "Val 1"]
    ex_query [of no_tie]
  have p3: "homeFeed ex_db no_tie (Some 1) Null (Val 1) = Inr [feed_row1]"
    by simp
  from homeFeed_timeline [OF ex_db_schema_ok, of no_tie 1 "Val (- 1)" Undefined]
  have p4: "homeFeed ex_db no_tie (Some 1) (Val (- 1)) Undefined = Inl INTERNAL_SERVER_ERROR"
    by simp
  from a b c p1 p2 p3 p4 ex_db_schema_ok show ?thesis by blast
qed

text \<open>
  The feed is a page and not the whole timeline: of the 21 tweets of a user, the query
  with its default limit returns the 20 newest, and the oldest is missing.
\<close>

theorem homeFeed_default_page_counterexample:
  "busy_tweet 1 \<in> set (tweets busy_db) \<and> t_user_id (busy_tweet 1) = 1 \<and>
   homeFeed busy_db no_tie (Some 1) Undefined Undefined = Inr (map busy_row (rev [2..<22])) \<and>
   busy_tweet 1 \<notin> set (map feed_tweet (map busy_row (rev [2..<22])))"
proof -
  have a: "busy_tweet 1 \<in> set (tweets busy_db)" by code_simp
  have b: "t_user_id (busy_tweet 1) = 1" by (simp add: busy_tweet_def)
  have "take 20 (map busy_row (rev [1..<22])) = map busy_row (rev [2..<22])" by code_simp
  with busy_query
  have c: "homeFeed busy_db no_tie (Some 1) Undefined Undefined = Inr (map busy_row (rev [2..<22]))"
    by (simp add: homeFeed_call)
  have "t_id (busy_tweet 1) \<notin> set (map t_id (map feed_tweet (map busy_row (rev [2..<22]))))"
    by (simp add: busy_tweet_def busy_row_def feed_tweet_def comp_def)
  then have d: "busy_tweet 1 \<notin> set (map feed_tweet (map busy_row (rev [2..<22])))"
    by force
  from a b c d show ?thesis by blast
qed

text \<open>
  C2. The likes table holds at most one row for each pair of a user and a tweet: the
  empty database has the property, every statement that the schema executes keeps it, and
  it bounds the number of rows of a pair by one.
\<close>

theorem likes_at_most_once:
  "likes_unique empty_db \<and>
   (likes_unique d \<and> exec now d s = Inr d' \<longrightarrow> likes_unique d') \<and>
   (likes_unique d \<longrightarrow>
      length (filter (\<lambda>l. l_user_id l = u \<and> l_tweet_id l = t) (likes d)) \<le> 1)"
proof (intro conjI impI)
  show "likes_unique empty_db" by (simp add: likes_unique_def empty_db_def)
next
  assume "likes_unique d \<and> exec now d s = Inr d'"
  then show "likes_unique d'" using exec_likes_unique by blast
next
  assume "likes_unique d"
  then have "length (filter (\<lambda>l. (l_user_id l, l_tweet_id l) = (u, t)) (likes d)) \<le> 1"
    unfolding likes_unique_def by (rule distinct_key_filter_le1)
  then show "length (filter (\<lambda>l. l_user_id l = u \<and> l_tweet_id l = t) (likes d)) \<le> 1"
    by simp
qed

theorem likes_at_most_once_witness:
  "likes_unique ex_db \<and> exec 30 ex_db (INSERT_likes (Some 2) (Some 1)) = Inr ex_db_liked \<and>
   likes_unique ex_db_liked \<and>
   length (filter (\<lambda>l. l_user_id l = 1 \<and> l_tweet_id l = 2) (likes ex_db)) \<le> 1"
proof -
  have h: "likes_unique ex_db" using ex_db_schema_ok by (simp add: schema_ok_def)
  from likes_at_most_once [of ex_db 30 "INSERT_likes (Some 2) (Some 1)" ex_db_liked 1 2]
    h ex_db_like
  show ?thesis by blast
qed

text \<open>
  C3. The keys, the uniqueness of likes, retweets and follows and the foreign keys with
  their cascades are enforced by the schema: every statement that it executes keeps them.
  Not every rule of the data model is enforced by the schema: it accepts a follow of a
  user by itself, so the rule against self-follows is not among its invariants.
\<close>

theorem schema_and_application_rules:
  "(schema_ok d \<and> exec now d s = Inr d' \<longrightarrow> schema_ok d') \<and>
   (user_exists d a \<and> \<not> follows_edge d a a \<longrightarrow>
      (\<exists>d''. exec now d (INSERT_follows (Some a) (Some a)) = Inr d'' \<and> \<not> no_self_follows d''))"
proof (intro conjI impI)
  assume "schema_ok d \<and> exec now d s = Inr d'"
  then show "schema_ok d'" using exec_schema_ok by blast
next
  assume h: "user_exists d a \<and> \<not> follows_edge d a a"
  then have "exec now d (INSERT_follows (Some a) (Some a)) =
       Inr (d\<lparr>follows := follows d @
         [\<lparr>f_id = gen_random_uuid (map f_id (follows d)), f_follower_id = a,
           f_following_id = a, f_created_at = now\<rparr>]\<rparr>)"
    by (intro insert_follow_ok) simp_all
  then show "\<exists>d''. exec now d (INSERT_follows (Some a) (Some a)) = Inr d'' \<and> \<not> no_self_follows d''"
    by (simp add: no_self_follows_def)
qed

theorem schema_and_application_rules_witness:
  "schema_ok ex_db \<and> exec 30 ex_db (INSERT_likes (Some 2) (Some 1)) = Inr ex_db_liked \<and>
   schema_ok ex_db_liked \<and>
   user_exists solo_db 1 \<and> \<not> follows_edge solo_db 1 1 \<and>
   (\<exists>d''. exec 0 solo_db (INSERT_follows (Some 1) (Some 1)) = Inr d'' \<and> \<not> no_self_follows d'')"
proof -
  have u: "user_exists solo_db 1" by (simp add: user_exists_def solo_db_simps user1_def)
  have f: "\<not> follows_edge solo_db 1 1" by (simp add: follows_edge_def solo_db_simps)
  from schema_and_application_rules [of ex_db 30 "INSERT_likes (Some 2) (Some 1)" ex_db_liked]
    ex_db_schema_ok ex_db_like
  have a: "schema_ok ex_db_liked" by blast
  from schema_and_application_rules [where d = solo_db and a = 1 and now = 0] u f
  have b: "\<exists>d''. exec 0 solo_db (INSERT_follows (Some 1) (Some 1)) = Inr d'' \<and>
      \<not> no_self_follows d''"
    by blast
  from a b u f ex_db_schema_ok ex_db_like show ?thesis by blast
qed

text \<open>
  The rule against self-follows, which the notes of the schema assign to the application
  layer, is not kept by the schema: it executes the insert of the row \<open>(1, 1)\<close>.
\<close>

theorem schema_accepts_self_follow:
  "schema_ok solo_db \<and> no_self_follows solo_db \<and>
   exec 0 solo_db (INSERT_follows (Some 1) (Some 1)) = Inr solo_db_self_follow \<and>
   schema_ok solo_db_self_follow \<and> \<not> no_self_follows solo_db_self_follow"
proof -
  have "schema_ok solo_db_self_follow"
    using exec_schema_ok [OF solo_db_schema_ok solo_db_insert_self_follow] .
  moreover have "no_self_follows solo_db" by (simp add: no_self_follows_def solo_db_simps)
  moreover have "\<not> no_self_follows solo_db_self_follow"
    by (simp add: no_self_follows_def solo_db_self_follow_def)
  ultimately show ?thesis using solo_db_schema_ok solo_db_insert_self_follow by simp
qed

text \<open>
  C4. After a successful \<open>deleteTweet\<close> the tweet is gone and no row of likes or of
  retweets references its id.
\<close>

theorem deleteTweet_cascades:
  "deleteTweet now d req_user i = (Inr ok, d') \<Longrightarrow>
     \<not> tweet_exists d' i \<and> list_all (\<lambda>l. l_tweet_id l \<noteq> i) (likes d') \<and>
     list_all (\<lambda>r. r_tweet_id r \<noteq> i) (retweets d')"
  by (auto simp: deleteTweet_def tweet_exists_def list_all_iff
      split: option.splits if_splits)

theorem deleteTweet_cascades_witness:
  "deleteTweet 30 ex_db (Some 2) 2 = (Inr True, ex_db_deleted) \<and>
   tweet_exists ex_db 2 \<and> like_count ex_db 2 = 2 \<and> retweet_count ex_db 2 = 1 \<and>
   \<not> tweet_exists ex_db_deleted 2 \<and> list_all (\<lambda>l. l_tweet_id l \<noteq> 2) (likes ex_db_deleted) \<and>
   list_all (\<lambda>r. r_tweet_id r \<noteq> 2) (retweets ex_db_deleted)"
proof -
  have h: "deleteTweet 30 ex_db (Some 2) 2 = (Inr True, ex_db_deleted)"
    by (simp add: deleteTweet_def ex_db_deleted_def ex_db_simps tweet1_def tweet2_def)
  have b: "tweet_exists ex_db 2 \<and> like_count ex_db 2 = 2 \<and> retweet_count ex_db 2 = 1"
    by (simp add: tweet_exists_def like_count_def retweet_count_def ex_db_simps
        tweet1_def tweet2_def)
  from deleteTweet_cascades [OF h] h b show ?thesis by simp
qed

text \<open>
  C5. Under the primary keys, the \<open>likes_count\<close> of every row that \<open>homeFeed\<close> returns
  is the number of rows of likes with the tweet's id, which is what the count query
  \<open>SELECT COUNT(*) FROM likes WHERE tweet_id = ?\<close> returns, and the \<open>retweets_count\<close> is
  the number of rows of retweets with the tweet's id.
\<close>

theorem homeFeed_counts:
  "pk_ok d \<Longrightarrow> homeFeed d tie req_user limit offset = Inr rows \<Longrightarrow> row \<in> set rows \<Longrightarrow>
     likes_count row = like_count d (t_id row) \<and>
     retweets_count row = retweet_count d (t_id row)"
proof -
  assume pk: "pk_ok d" and h: "homeFeed d tie req_user limit offset = Inr rows"
    and r: "row \<in> set rows"
  from homeFeed_rows_subset [OF h] r obtain uid where "row \<in> set (homeFeed_query d tie uid)"
    by blast
  with pk show ?thesis by (rule homeFeed_query_counts)
qed

theorem homeFeed_counts_witness:
  "pk_ok ex_db \<and> homeFeed ex_db no_tie (Some 1) Undefined Undefined = Inr [feed_row2, feed_row1] \<and>
   feed_row2 \<in> set [feed_row2, feed_row1] \<and>
   likes_count feed_row2 = like_count ex_db (t_id feed_row2) \<and>
   retweets_count feed_row2 = retweet_count ex_db (t_id feed_row2) \<and>
   like_count ex_db (t_id feed_row2) = 2 \<and> retweet_count ex_db (t_id feed_row2) = 1"
proof -
  have pk: "pk_ok ex_db" using ex_db_schema_ok by (simp add: schema_ok_def)
  have ex_feed: "homeFeed ex_db no_tie (Some 1) Undefined Undefined = Inr [feed_row2, feed_row1]"
    using ex_query [of no_tie] by (simp add: homeFeed_call)
  have m: "feed_row2 \<in> set [feed_row2, feed_row1]" by simp
  have c: "like_count ex_db (t_id feed_row2) = 2 \<and> retweet_count ex_db (t_id feed_row2) = 1"
    by (simp add: like_count_def retweet_count_def ex_db_simps feed_row2_def)
  from homeFeed_counts [OF pk ex_feed m] pk ex_feed m c show ?thesis by blast
qed

text \<open>
  C6. A follow is a directed edge. The follows table holds at most one row for each
  ordered pair of users, and every statement keeps that. The pair \<open>(b, a)\<close> is another key
  than \<open>(a, b)\<close>: whether or not \<open>a\<close> follows \<open>b\<close>, the row \<open>(b, a)\<close> can be inserted, and
  inserting it neither adds nor removes the edge from \<open>a\<close> to \<open>b\<close>.
\<close>

theorem follows_directed:
  "(follows_unique d \<and> exec now d s = Inr d' \<longrightarrow> follows_unique d') \<and>
   (follows_unique d \<longrightarrow>
      length (filter (\<lambda>f. f_follower_id f = a \<and> f_following_id f = b) (follows d)) \<le> 1) \<and>
   (user_exists d a \<and> user_exists d b \<and> a \<noteq> b \<and> \<not> follows_edge d b a \<longrightarrow>
      (\<exists>d''. exec now d (INSERT_follows (Some b) (Some a)) = Inr d'' \<and>
         follows_edge d'' b a \<and> (follows_edge d'' a b \<longleftrightarrow> follows_edge d a b)))"
proof (intro conjI impI)
  assume "follows_unique d \<and> exec now d s = Inr d'"
  then show "follows_unique d'" using exec_follows_unique by blast
next
  assume "follows_unique d"
  then have "length (filter (\<lambda>f. (f_follower_id f, f_following_id f) = (a, b)) (follows d)) \<le> 1"
    unfolding follows_unique_def by (rule distinct_key_filter_le1)
  then show "length (filter (\<lambda>f. f_follower_id f = a \<and> f_following_id f = b) (follows d)) \<le> 1"
    by simp
next
  assume h: "user_exists d a \<and> user_exists d b \<and> a \<noteq> b \<and> \<not> follows_edge d b a"
  then have "exec now d (INSERT_follows (Some b) (Some a)) =
       Inr (d\<lparr>follows := follows d @
         [\<lparr>f_id = gen_random_uuid (map f_id (follows d)), f_follower_id = b,
           f_following_id = a, f_created_at = now\<rparr>]\<rparr>)"
    by (intro insert_follow_ok) simp_all
  with h show "\<exists>d''. exec now d (INSERT_follows (Some b) (Some a)) = Inr d'' \<and>
         follows_edge d'' b a \<and> (follows_edge d'' a b \<longleftrightarrow> follows_edge d a b)"
    by (auto simp: follows_edge_insert)
qed

theorem follows_directed_witness:
  "follows_unique ex_db \<and> exec 30 ex_db (INSERT_follows (Some 2) (Some 1)) = Inr ex_db_followed \<and>
   follows_unique ex_db_followed \<and>
   length (filter (\<lambda>f. f_follower_id f = 1 \<and> f_following_id f = 2) (follows ex_db)) \<le> 1 \<and>
   user_exists ex_db 1 \<and> user_exists ex_db 2 \<and> (1::nat) \<noteq> 2 \<and> \<not> follows_edge ex_db 2 1 \<and>
   follows_edge ex_db 1 2 \<and> follows_edge ex_db_followed 2 1 \<and> follows_edge ex_db_followed 1 2"
proof -
  have u: "follows_unique ex_db" using ex_db_schema_ok by (simp add: schema_ok_def)
  have h: "user_exists ex_db 1 \<and> user_exists ex_db 2 \<and> (1::nat) \<noteq> 2 \<and> \<not> follows_edge ex_db 2 1"
    by (simp add: user_exists_def follows_edge_def ex_db_simps user1_def user2_def)
  have e: "follows_edge ex_db 1 2" by (simp add: follows_edge_def ex_db_simps)
  from follows_directed [of ex_db 30 "INSERT_follows (Some 2) (Some 1)" ex_db_followed 1 2]
    u h e ex_db_follow
  show ?thesis by auto
qed

text \<open>
  C7. Every tweet is owned by exactly one user. Every statement keeps the constraints of
  the schema; under them exactly one row of users has the id that a tweet's \<open>user_id\<close>
  names; an insert into tweets without a \<open>user_id\<close> is rejected, and so is one whose
  \<open>user_id\<close> names no user.
\<close>

theorem tweet_has_one_owner:
  "(schema_ok d \<and> exec now d s = Inr d' \<longrightarrow> schema_ok d') \<and>
   (schema_ok d \<and> t \<in> set (tweets d) \<longrightarrow>
      length (filter (\<lambda>u. u_id u = t_user_id t) (users d)) = 1) \<and>
   exec now d (INSERT_tweets None content) = Inl not_null_violation \<and>
   (\<not> user_exists d uid \<longrightarrow> (\<exists>e. exec now d (INSERT_tweets (Some uid) content) = Inl e))"
proof (intro conjI impI)
  assume "schema_ok d \<and> exec now d s = Inr d'"
  then show "schema_ok d'" using exec_schema_ok by blast
next
  assume h: "schema_ok d \<and> t \<in> set (tweets d)"
  then have "distinct (map u_id (users d))" by (simp add: schema_ok_def pk_ok_def)
  moreover from h have "t_user_id t \<in> u_id ` set (users d)"
    by (auto simp: schema_ok_def fk_ok_def list_all_iff user_exists_def)
  ultimately show "length (filter (\<lambda>u. u_id u = t_user_id t) (users d)) = 1"
    by (rule distinct_key_filter_eq1)
next
  show "exec now d (INSERT_tweets None content) = Inl not_null_violation" by simp
next
  assume "\<not> user_exists d uid"
  then show "\<exists>e. exec now d (INSERT_tweets (Some uid) content) = Inl e"
    by (cases content) simp_all
qed

theorem tweet_has_one_owner_witness:
  "schema_ok ex_db \<and> exec 30 ex_db (INSERT_likes (Some 2) (Some 1)) = Inr ex_db_liked \<and>
   schema_ok ex_db_liked \<and> tweet2 \<in> set (tweets ex_db) \<and>
   length (filter (\<lambda>u. u_id u = t_user_id tweet2) (users ex_db)) = 1 \<and>
   \<not> user_exists ex_db 7 \<and> (\<exists>e. exec 30 ex_db (INSERT_tweets (Some 7) (Some [104])) = Inl e)"
proof -
  have t: "tweet2 \<in> set (tweets ex_db)" by (simp add: ex_db_simps)
  have n: "\<not> user_exists ex_db 7" by (simp add: user_exists_def ex_db_simps user1_def user2_def)
  from tweet_has_one_owner [of ex_db 30 "INSERT_likes (Some 2) (Some 1)" ex_db_liked tweet2
      "Some [104]" 7] ex_db_schema_ok ex_db_like t n
  show ?thesis by blast
qed




text \<open>
  C9. \<open>createUserAvatarUrl\<close> is a function of the email alone: on every well-formed
  email it returns the literal \<open>https://api.dicebear.com/7.x/avataaars/svg?seed=\<close>, the
  percent-encoded email and the literal \<open>&scale=80\<close>, and the encoded email consists of
  unreserved characters and \<open>%XX\<close> escapes only, so no reserved character of the email
  reaches the URL.
\<close>

theorem createUserAvatarUrl_well_formed:
  "well_formed email \<Longrightarrow>
     \<exists>seed. encodeURIComponent email = Inr seed \<and> list_all uri_safe seed \<and>
       createUserAvatarUrl email =
         Inr (js ''https://api.dicebear.com/7.x/avataaars/svg?seed='' @ seed @ js ''&scale=80'')"
proof -
  assume "well_formed email"
  then obtain r where "Encode email = Inr r" "\<forall>c \<in> set r. uri_safe c"
    using Encode_well_formed by blast
  then show ?thesis
    by (simp add: createUserAvatarUrl_def encodeURIComponent_def list_all_iff)
qed

theorem createUserAvatarUrl_well_formed_witness:
  "well_formed [97, 38, 98] \<and>
   (\<exists>seed. encodeURIComponent [97, 38, 98] = Inr seed \<and> list_all uri_safe seed \<and>
      createUserAvatarUrl [97, 38, 98] =
        Inr (js ''https://api.dicebear.com/7.x/avataaars/svg?seed='' @ seed @ js ''&scale=80''))"
proof -
  have h: "well_formed [97, 38, 98]"
    by (simp add: isLeadingSurrogate_def isTrailingSurrogate_def)
  from createUserAvatarUrl_well_formed [OF h] h show ?thesis by blast
qed

text \<open>
  It is not total on all strings: on an email that holds a surrogate without its partner
  the built-in throws URIError and no URL is returned.
\<close>

theorem createUserAvatarUrl_lone_surrogate: "createUserAvatarUrl [0xD800] = Inl URIError"
  by (simp add: createUserAvatarUrl_def encodeURIComponent_def uriUnescaped_def
      isLeadingSurrogate_def isTrailingSurrogate_def)

text \<open>
  C10. \<open>likeTweet\<close> by a user who has already liked the tweet fails with \<open>DUPLICATE\<close>
  and leaves the database as it was.
\<close>

theorem likeTweet_duplicate:
  "(uid, tweetId) \<in> set (map (\<lambda>l. (l_user_id l, l_tweet_id l)) (likes d)) \<Longrightarrow>
     likeTweet now d (Some uid) tweetId = (Inl DUPLICATE, d)"
  by (simp add: likeTweet_def)

theorem likeTweet_duplicate_witness:
  "(1, 2) \<in> set (map (\<lambda>l. (l_user_id l, l_tweet_id l)) (likes ex_db)) \<and>
   likeTweet 30 ex_db (Some 1) 2 = (Inl DUPLICATE, ex_db)"
proof -
  have h: "(1, 2) \<in> set (map (\<lambda>l. (l_user_id l, l_tweet_id l)) (likes ex_db))"
    by (simp add: ex_db_simps)
  from likeTweet_duplicate [OF h] h show ?thesis by simp
qed

end
